theory Spec2Isabelle
  imports Complex_Main "HOL-Library.AList"
begin

section \<open>The publish/subscribe machinery of distributed/pubsub.py\<close>

text \<open>
  The module extends the scheduler, every worker and every client with a directory, and
  gives user code two endpoint classes, \<open>Pub\<close> and \<open>Sub\<close>. Each class is modelled by a
  record of its attributes and each method by a function from the state before the call
  to the state after it, together with what the call sends. An exception is a value of
  type \<open>error\<close>.
\<close>

subsection \<open>Shared data\<close>

type_synonym topic = string
type_synonym address = string
type_synonym client_id = string

text \<open>The keyword arguments \<open>**info\<close> that travel with a subscriber; \<open>{}\<close> is \<open>[]\<close>.\<close>

type_synonym info = "(string \<times> string) list"

datatype error = KeyError | AssertionError | TimeoutError | RuntimeError

text \<open>
  The dictionaries \<open>{"op": ..., "name": ..., ...}\<close> that are put on a stream: those the
  scheduler sends, \<open>{"op": "pubsub-msg", ...}\<close> that a \<open>Pub\<close> sends too, and
  \<open>{"op": "pubsub-remove-subscribers", "name": name}\<close> of the client directory.
\<close>

datatype 'm event =
    Pubsub_add_subscriber topic address
  | Pubsub_remove_subscriber topic address
  | Pubsub_remove_subscribers topic
  | Pubsub_publish_scheduler topic bool
  | Pubsub_msg topic 'm

text \<open>The value stored under \<open>"op"\<close>.\<close>

fun op_name :: "'m event \<Rightarrow> string" where
  "op_name (Pubsub_add_subscriber name address) = ''pubsub-add-subscriber''"
| "op_name (Pubsub_remove_subscriber name address) = ''pubsub-remove-subscriber''"
| "op_name (Pubsub_remove_subscribers name) = ''pubsub-remove-subscribers''"
| "op_name (Pubsub_publish_scheduler name publish) = ''pubsub-publish-scheduler''"
| "op_name (Pubsub_msg name msg) = ''pubsub-msg''"

text \<open>
  \<open>self.scheduler.worker_send(w, e)\<close> and \<open>self.scheduler.client_comms[c].send(e)\<close>.
  A loop over a Python set sends one event per element in no specified order, so what
  a handler sends is a set of these.
\<close>

datatype 'm send = Worker_send address "'m event" | Client_send client_id "'m event"

text \<open>
  An argument that defaults to \<open>None\<close> is an option; \<open>if worker:\<close> tests its truth value,
  and the empty string is false as \<open>None\<close> is. \<open>truthy_arg\<close> gives the argument when
  the test succeeds.
\<close>

fun truthy_arg :: "string option \<Rightarrow> string option" where
  "truthy_arg None = None"
| "truthy_arg (Some a) = (if a = [] then None else Some a)"

subsection \<open>\<open>defaultdict\<close>\<close>

text \<open>
  Every table of the module is a \<open>defaultdict\<close>. Reading \<open>d[name]\<close> for a key that is
  missing stores the default value under it and returns that value: \<open>getitem dflt d name\<close>
  is the value read and \<open>inserted dflt d name\<close> is the table after the read.
  \<open>name in d\<close> is \<open>name \<in> dom d\<close>, and \<open>d.get(name, dflt)\<close> is \<open>getitem dflt d name\<close>; neither
  stores anything.
\<close>

definition getitem :: "'v \<Rightarrow> (topic \<Rightarrow> 'v option) \<Rightarrow> topic \<Rightarrow> 'v" where
  "getitem dflt d name = (case d name of None \<Rightarrow> dflt | Some v \<Rightarrow> v)"

definition inserted :: "'v \<Rightarrow> (topic \<Rightarrow> 'v option) \<Rightarrow> topic \<Rightarrow> (topic \<Rightarrow> 'v option)" where
  "inserted dflt d name = (case d name of None \<Rightarrow> d(name \<mapsto> dflt) | Some v \<Rightarrow> d)"

text \<open>\<open>defaultdict(set)\<close>, the tables of the scheduler.\<close>

type_synonym 'a table = "topic \<Rightarrow> 'a set option"

abbreviation members :: "'a table \<Rightarrow> topic \<Rightarrow> 'a set" where
  "members \<equiv> getitem {}"

abbreviation touch :: "'a table \<Rightarrow> topic \<Rightarrow> 'a table" where
  "touch \<equiv> inserted {}"

text \<open>
  \<open>defaultdict(weakref.WeakSet)\<close>, the tables of a worker and of a client. A weak set
  holds the endpoint objects that are alive; an object is given by its identity, a
  number, and the list is the set in the order in which Python iterates it.
\<close>

type_synonym weak_table = "topic \<Rightarrow> nat list option"

abbreviation objects :: "weak_table \<Rightarrow> topic \<Rightarrow> nat list" where
  "objects \<equiv> getitem []"

abbreviation touch_objects :: "weak_table \<Rightarrow> topic \<Rightarrow> weak_table" where
  "touch_objects \<equiv> inserted []"

definition weak_add :: "nat \<Rightarrow> nat list \<Rightarrow> nat list" where
  "weak_add p ps = (if p \<in> set ps then ps else ps @ [p])"

subsection \<open>\<open>PubSubSchedulerExtension\<close>\<close>

record scheduler_ext =
  publishers :: "address table"
  subscribers :: "address table"
  client_subscribers :: "client_id table"

text \<open>\<open>__init__\<close>: three empty tables.\<close>

definition scheduler_init :: scheduler_ext where
  "scheduler_init =
     \<lparr>publishers = Map.empty, subscribers = Map.empty, client_subscribers = Map.empty\<rparr>"

text \<open>
  The stream handlers that \<open>__init__\<close> registers, by the operation name they are stored
  under in \<open>self.scheduler.stream_handlers\<close>.
\<close>

datatype handler = Add_subscriber | Remove_publisher | Remove_subscriber | Handle_message

definition stream_handlers :: "string \<Rightarrow> handler option" where
  "stream_handlers =
     [''pubsub-add-subscriber'' \<mapsto> Add_subscriber,
      ''pubsub-remove-publisher'' \<mapsto> Remove_publisher,
      ''pubsub-remove-subscriber'' \<mapsto> Remove_subscriber,
      ''pubsub-msg'' \<mapsto> Handle_message]"

text \<open>
  The value \<open>add_publisher\<close> returns: the dictionary built by the comprehension
  \<open>{addr: {} for addr in self.subscribers[name]}\<close> and the flag \<open>"publish-scheduler"\<close>.
\<close>

record reply =
  reply_subscribers :: "address \<Rightarrow> info option"
  reply_publish_scheduler :: bool

text \<open>
  \<open>add_publisher\<close>. Both \<open>self.publishers[name]\<close> and \<open>self.subscribers[name]\<close> are reads
  of a \<open>defaultdict\<close>; \<open>self.client_subscribers[name]\<close> is read only behind
  \<open>name in self.client_subscribers\<close>. \<open>len(xs) > 0\<close> of a Python set is \<open>xs \<noteq> {}\<close>.
\<close>

definition add_publisher :: "topic \<Rightarrow> address \<Rightarrow> scheduler_ext \<Rightarrow> scheduler_ext \<times> reply" where
  "add_publisher name worker s =
     (let pubs = touch (publishers s) name;
          pubs' = pubs(name \<mapsto> insert worker (members pubs name));
          subs = touch (subscribers s) name
      in (s\<lparr>publishers := pubs', subscribers := subs\<rparr>,
          \<lparr>reply_subscribers = (\<lambda>addr. if addr \<in> members subs name then Some [] else None),
           reply_publish_scheduler =
             (name \<in> dom (client_subscribers s) \<and> members (client_subscribers s) name \<noteq> {})\<rparr>))"

text \<open>\<open>add_subscriber\<close>: the worker branch, else the client branch, else nothing.\<close>

definition add_subscriber ::
  "topic \<Rightarrow> address option \<Rightarrow> client_id option \<Rightarrow> scheduler_ext \<Rightarrow> scheduler_ext \<times> 'm send set" where
  "add_subscriber name worker client s =
     (case truthy_arg worker of
        Some w \<Rightarrow>
          (let subs = touch (subscribers s) name;
               subs' = subs(name \<mapsto> insert w (members subs name));
               pubs = touch (publishers s) name
           in (s\<lparr>subscribers := subs', publishers := pubs\<rparr>,
               (\<lambda>pub. Worker_send pub (Pubsub_add_subscriber name w)) ` members pubs name))
      | None \<Rightarrow>
          (case truthy_arg client of
             Some c \<Rightarrow>
               (let pubs = touch (publishers s) name;
                    cs = touch (client_subscribers s) name
                in (s\<lparr>publishers := pubs,
                      client_subscribers := cs(name \<mapsto> insert c (members cs name))\<rparr>,
                    (\<lambda>pub. Worker_send pub (Pubsub_publish_scheduler name True)) ` members pubs name))
           | None \<Rightarrow> (s, {})))"

text \<open>
  The test that ends both removals:
  \<open>if not self.subscribers[name] and not self.publishers[name]: del ...; del ...\<close>.
  \<open>and\<close> reads \<open>self.publishers[name]\<close> only when the subscriber set is empty.
\<close>

definition delete_if_unused :: "topic \<Rightarrow> scheduler_ext \<Rightarrow> scheduler_ext" where
  "delete_if_unused name s =
     (let subs = touch (subscribers s) name in
      if members subs name \<noteq> {} then s\<lparr>subscribers := subs\<rparr>
      else
        (let pubs = touch (publishers s) name in
         if members pubs name \<noteq> {} then s\<lparr>subscribers := subs, publishers := pubs\<rparr>
         else s\<lparr>subscribers := subs(name := None), publishers := pubs(name := None)\<rparr>))"

text \<open>\<open>remove_publisher\<close>: everything happens under \<open>if worker in self.publishers[name]\<close>.\<close>

definition remove_publisher :: "topic \<Rightarrow> address \<Rightarrow> scheduler_ext \<Rightarrow> scheduler_ext" where
  "remove_publisher name worker s =
     (let pubs = touch (publishers s) name in
      if worker \<in> members pubs name
      then delete_if_unused name (s\<lparr>publishers := pubs(name \<mapsto> members pubs name - {worker})\<rparr>)
      else s\<lparr>publishers := pubs\<rparr>)"

text \<open>
  \<open>remove_subscriber\<close>. \<open>set.remove\<close> raises \<open>KeyError\<close> for an element that is not in the
  set, and nothing around the two calls catches it.
\<close>

definition remove_subscriber ::
  "topic \<Rightarrow> address option \<Rightarrow> client_id option \<Rightarrow> scheduler_ext
     \<Rightarrow> error + scheduler_ext \<times> 'm send set" where
  "remove_subscriber name worker client s =
     (case truthy_arg worker of
        Some w \<Rightarrow>
          (let subs = touch (subscribers s) name in
           if w \<in> members subs name then
             (let pubs = touch (publishers s) name
              in Inr (delete_if_unused name
                        (s\<lparr>subscribers := subs(name \<mapsto> members subs name - {w}),
                           publishers := pubs\<rparr>),
                      (\<lambda>pub. Worker_send pub (Pubsub_remove_subscriber name w)) ` members pubs name))
           else Inl KeyError)
      | None \<Rightarrow>
          (case truthy_arg client of
             Some c \<Rightarrow>
               (let cs = touch (client_subscribers s) name in
                if c \<in> members cs name then
                  (if members cs name - {c} = {} then
                     (let pubs = touch (publishers s) name
                      in Inr (delete_if_unused name
                                (s\<lparr>client_subscribers := cs(name := None), publishers := pubs\<rparr>),
                              (\<lambda>pub. Worker_send pub (Pubsub_publish_scheduler name False))
                                ` members pubs name))
                   else
                     Inr (delete_if_unused name
                            (s\<lparr>client_subscribers := cs(name \<mapsto> members cs name - {c})\<rparr>), {}))
                else Inl KeyError)
           | None \<Rightarrow> Inr (delete_if_unused name s, {})))"

text \<open>
  \<open>self.scheduler.client_comms\<close> maps a client to its stream. The send raises \<open>KeyError\<close>
  when the client has no entry and \<open>CommClosedError\<close> when its stream is closed, and
  \<open>handle_message\<close> catches both.
\<close>

datatype comm = Comm_open | Comm_closed

definition send_raises :: "(client_id \<Rightarrow> comm option) \<Rightarrow> client_id \<Rightarrow> bool" where
  "send_raises client_comms c = (client_comms c \<noteq> Some Comm_open)"

text \<open>
  The first loop of \<open>handle_message\<close>, over \<open>list(self.client_subscribers[name])\<close>. The
  call of \<open>remove_subscriber\<close> stands in the \<open>except\<close> clause, so what it raises leaves
  \<open>handle_message\<close>.
\<close>

fun handle_message_clients ::
  "(client_id \<Rightarrow> comm option) \<Rightarrow> topic \<Rightarrow> 'm \<Rightarrow> client_id list
     \<Rightarrow> scheduler_ext \<times> 'm send set \<Rightarrow> error + scheduler_ext \<times> 'm send set" where
  "handle_message_clients client_comms name msg [] acc = Inr acc"
| "handle_message_clients client_comms name msg (c # cs) (s, out) =
     (if send_raises client_comms c then
        (case remove_subscriber name None (Some c) s of
           Inl e \<Rightarrow> Inl e
         | Inr (s', out') \<Rightarrow> handle_message_clients client_comms name msg cs (s', out \<union> out'))
      else
        handle_message_clients client_comms name msg cs
          (s, insert (Client_send c (Pubsub_msg name msg)) out))"

text \<open>
  \<open>handle_message\<close>. The argument \<open>order\<close> is \<open>list(self.client_subscribers[name])\<close>: the
  elements of the set, each once, in the order in which Python iterates it.
\<close>

definition handle_message ::
  "(client_id \<Rightarrow> comm option) \<Rightarrow> topic \<Rightarrow> 'm \<Rightarrow> address option \<Rightarrow> client_id option
     \<Rightarrow> client_id list \<Rightarrow> scheduler_ext \<Rightarrow> error + scheduler_ext \<times> 'm send set" where
  "handle_message client_comms name msg worker client order s =
     (case handle_message_clients client_comms name msg order
             (s\<lparr>client_subscribers := touch (client_subscribers s) name\<rparr>, {}) of
        Inl e \<Rightarrow> Inl e
      | Inr (s', out) \<Rightarrow>
          (case truthy_arg client of
             Some c \<Rightarrow>
               (let subs = touch (subscribers s') name
                in Inr (s'\<lparr>subscribers := subs\<rparr>,
                        out \<union> (\<lambda>sub. Worker_send sub (Pubsub_msg name msg)) ` members subs name))
           | None \<Rightarrow> Inr (s', out)))"

subsection \<open>\<open>Pub\<close>, \<open>Sub\<close> and the process that holds them\<close>

text \<open>\<open>to_serialize(msg)\<close>, the wrapper of \<open>distributed.protocol.serialize\<close>.\<close>

datatype 'm serialized = To_serialize 'm

text \<open>
  The attributes of a \<open>Pub\<close>. \<open>self.worker\<close> is a worker, given by its address, or
  \<open>None\<close>; \<open>self.client\<close> is a client or \<open>None\<close>. \<open>self.subscribers\<close> is a \<open>dict\<close>: an
  association list in insertion order. \<open>self._buffer\<close> is \<open>pub_buffer\<close>.
\<close>

record 'm pub =
  pub_name :: topic
  pub_worker :: "address option"
  pub_client :: "client_id option"
  pub_subscribers :: "(address \<times> info) list"
  pub_started :: bool
  pub_buffer :: "'m list"

record 'm sub =
  sub_worker :: "address option"
  sub_client :: "client_id option"
  sub_name :: topic
  sub_buffer :: "'m list"

text \<open>
  What a process sends: \<open>self.worker.send_to_worker(sub, data)\<close>,
  \<open>self.worker.batched_stream.send(data)\<close>, \<open>self.client.scheduler_comm.send(data)\<close> and
  the call \<open>self.scheduler.pubsub_add_publisher(name=..., worker=...)\<close>.
\<close>

datatype 'm out =
    Send_to_worker address "'m serialized event"
  | Batched_stream_send "'m serialized event"
  | Scheduler_comm_send "'m serialized event"
  | Call_pubsub_add_publisher topic address

text \<open>
  The value that the call returns to the worker: \<open>result["subscribers"]\<close>, a dictionary
  in the order in which it arrived, and \<open>result["publish-scheduler"]\<close>.
\<close>

record result =
  result_subscribers :: "(address \<times> info) list"
  result_publish_scheduler :: bool

text \<open>
  What waits on the event loop. The callbacks that \<open>self.loop.add_callback\<close> is given:
  \<open>self._start\<close>, \<open>pubsub.publishers[name].add\<close> with \<open>self\<close>, and \<open>self._put\<close> with \<open>msg\<close>.
  \<open>_start\<close> is an \<open>async def\<close>: calling it makes a coroutine and runs none of its body,
  and the loop runs the coroutine as a task, one step at a time. \<open>Start_body\<close> is the step
  from the top of \<open>_start\<close> to its \<open>await\<close>, or to its end without a worker, and
  \<open>Start_resume\<close> is the step that continues it with the value the call returned. The
  loop runs what waits one at a time, in the order in which it was added.
\<close>

datatype 'm callback =
    Start nat
  | Start_body nat
  | Start_resume nat result
  | Publishers_add topic nat
  | Put nat 'm

text \<open>
  A worker or client process: its \<open>Pub\<close> and \<open>Sub\<close> objects by identity, the tables of
  its extension (\<open>publishers\<close>, \<open>subscribers\<close> and \<open>publish_to_scheduler\<close>; a client has the
  second only, and no \<open>Pub\<close> without a worker touches the others), the \<open>_start\<close>
  coroutines whose call to the scheduler has not returned yet, what waits on the loop,
  and what has been sent so far.
\<close>

record 'm host =
  pub_objs :: "nat \<Rightarrow> 'm pub option"
  sub_objs :: "nat \<Rightarrow> 'm sub option"
  ext_publishers :: weak_table
  ext_subscribers :: weak_table
  publish_to_scheduler :: "topic \<Rightarrow> bool option"
  awaiting :: "nat set"
  loop :: "'m callback list"
  sent :: "'m out list"

definition host_init :: "'m host" where
  "host_init =
     \<lparr>pub_objs = Map.empty, sub_objs = Map.empty, ext_publishers = Map.empty,
      ext_subscribers = Map.empty, publish_to_scheduler = Map.empty, awaiting = {},
      loop = [], sent = []\<rparr>"

subsubsection \<open>\<open>PubSubWorkerExtension\<close>\<close>

text \<open>\<open>add_subscriber\<close>: \<open>pub.subscribers[address] = info\<close> for every \<open>Pub\<close> of the topic.\<close>

definition set_subscriber :: "address \<Rightarrow> info \<Rightarrow> nat \<Rightarrow> 'm host \<Rightarrow> 'm host" where
  "set_subscriber address info p h =
     (case pub_objs h p of
        None \<Rightarrow> h
      | Some pub \<Rightarrow>
          h\<lparr>pub_objs := (pub_objs h)
               (p \<mapsto> pub\<lparr>pub_subscribers := AList.update address info (pub_subscribers pub)\<rparr>)\<rparr>)"

definition worker_add_subscriber :: "topic \<Rightarrow> address \<Rightarrow> info \<Rightarrow> 'm host \<Rightarrow> 'm host" where
  "worker_add_subscriber name address info h =
     (let ps = touch_objects (ext_publishers h) name
      in fold (set_subscriber address info) (objects ps name) (h\<lparr>ext_publishers := ps\<rparr>))"

text \<open>
  \<open>remove_subscriber\<close>: \<open>del pub.subscribers[address]\<close> for every \<open>Pub\<close> of the topic.
  \<open>del\<close> raises \<open>KeyError\<close> for a key that the dictionary does not hold.
\<close>

fun del_subscriber :: "address \<Rightarrow> nat list \<Rightarrow> 'm host \<Rightarrow> error + 'm host" where
  "del_subscriber address [] h = Inr h"
| "del_subscriber address (p # ps) h =
     (case pub_objs h p of
        None \<Rightarrow> del_subscriber address ps h
      | Some pub \<Rightarrow>
          if address \<in> fst ` set (pub_subscribers pub) then
            del_subscriber address ps
              (h\<lparr>pub_objs := (pub_objs h)
                   (p \<mapsto> pub\<lparr>pub_subscribers := AList.delete address (pub_subscribers pub)\<rparr>)\<rparr>)
          else Inl KeyError)"

definition worker_remove_subscriber :: "topic \<Rightarrow> address \<Rightarrow> 'm host \<Rightarrow> error + 'm host" where
  "worker_remove_subscriber name address h =
     (let ps = touch_objects (ext_publishers h) name
      in del_subscriber address (objects ps name) (h\<lparr>ext_publishers := ps\<rparr>))"

definition publish_scheduler :: "topic \<Rightarrow> bool \<Rightarrow> 'm host \<Rightarrow> 'm host" where
  "publish_scheduler name publish h =
     h\<lparr>publish_to_scheduler := (publish_to_scheduler h)(name \<mapsto> publish)\<rparr>"

text \<open>\<open>Sub._put\<close>: append to the buffer (and notify the condition, which has no state here).\<close>

definition Sub__put :: "'m \<Rightarrow> nat \<Rightarrow> 'm host \<Rightarrow> 'm host" where
  "Sub__put msg i h =
     (case sub_objs h i of
        None \<Rightarrow> h
      | Some sub \<Rightarrow> h\<lparr>sub_objs := (sub_objs h)(i \<mapsto> sub\<lparr>sub_buffer := sub_buffer sub @ [msg]\<rparr>)\<rparr>)"

text \<open>\<open>handle_message\<close> of the worker: \<open>for sub in self.subscribers.get(name, [])\<close>.\<close>

definition worker_handle_message :: "topic \<Rightarrow> 'm \<Rightarrow> 'm host \<Rightarrow> 'm host" where
  "worker_handle_message name msg h = fold (Sub__put msg) (objects (ext_subscribers h) name) h"

subsubsection \<open>\<open>PubSubClientExtension\<close>\<close>

text \<open>
  \<open>handle_message\<close> of the client: \<open>for sub in self.subscribers[name]\<close>, then the event
  \<open>"pubsub-remove-subscribers"\<close> to the scheduler when the weak set is empty.
\<close>

definition client_handle_message :: "topic \<Rightarrow> 'm \<Rightarrow> 'm host \<Rightarrow> 'm host" where
  "client_handle_message name msg h =
     (let d = touch_objects (ext_subscribers h) name;
          h1 = fold (Sub__put msg) (objects d name) (h\<lparr>ext_subscribers := d\<rparr>)
      in if objects (ext_subscribers h1) name = []
         then h1\<lparr>sent := sent h1 @ [Scheduler_comm_send (Pubsub_remove_subscribers name)]\<rparr>
         else h1)"

subsubsection \<open>\<open>Pub\<close>\<close>

text \<open>
  \<open>__init__\<close>, after the lookup of the current worker or client: \<open>p\<close> is the identity of
  the new object, \<open>worker\<close> and \<open>client\<close> are as assigned to \<open>self.worker\<close> and
  \<open>self.client\<close>. \<open>pubsub.publishers[name]\<close> is read when the callback is made.
\<close>

definition Pub_init ::
  "nat \<Rightarrow> topic \<Rightarrow> address option \<Rightarrow> client_id option \<Rightarrow> 'm host \<Rightarrow> error + 'm host" where
  "Pub_init p name worker client h =
     (if client = None \<and> worker = None then Inl AssertionError
      else
        (let h1 = h\<lparr>pub_objs := (pub_objs h)
                       (p \<mapsto> \<lparr>pub_name = name, pub_worker = worker, pub_client = client,
                              pub_subscribers = [], pub_started = False, pub_buffer = []\<rparr>),
                    loop := loop h @ [Start p]\<rparr>
         in case worker of
              Some w \<Rightarrow>
                Inr (h1\<lparr>ext_publishers := touch_objects (ext_publishers h1) name,
                        loop := loop h1 @ [Publishers_add name p]\<rparr>)
            | None \<Rightarrow> Inr h1))"

text \<open>\<open>put\<close>: \<open>self.loop.add_callback(self._put, msg)\<close>.\<close>

definition Pub_put :: "nat \<Rightarrow> 'm \<Rightarrow> 'm host \<Rightarrow> 'm host" where
  "Pub_put p msg h = h\<lparr>loop := loop h @ [Put p msg]\<rparr>"

text \<open>
  The end of \<open>_start\<close>, common to both hosts: \<open>self._started = True\<close>, \<open>self.put(msg)\<close> for
  every buffered message, \<open>del self._buffer[:]\<close>.
\<close>

definition Pub_start_finish :: "nat \<Rightarrow> 'm host \<Rightarrow> 'm host" where
  "Pub_start_finish p h =
     (case pub_objs h p of
        None \<Rightarrow> h
      | Some pub \<Rightarrow>
          (let h1 = h\<lparr>pub_objs := (pub_objs h)(p \<mapsto> pub\<lparr>pub_started := True\<rparr>)\<rparr>;
               h2 = fold (Pub_put p) (pub_buffer pub) h1
           in h2\<lparr>pub_objs := (pub_objs h2)(p \<mapsto> pub\<lparr>pub_started := True, pub_buffer := []\<rparr>)\<rparr>))"

text \<open>
  \<open>_start\<close> up to its \<open>await\<close>. On a worker the coroutine calls the scheduler and is
  suspended; without a worker it runs to its end at once.
\<close>

definition Pub_start :: "nat \<Rightarrow> 'm host \<Rightarrow> 'm host" where
  "Pub_start p h =
     (case pub_objs h p of
        None \<Rightarrow> h
      | Some pub \<Rightarrow>
          (case pub_worker pub of
             Some w \<Rightarrow>
               h\<lparr>sent := sent h @ [Call_pubsub_add_publisher (pub_name pub) w],
                 awaiting := insert p (awaiting h)\<rparr>
           | None \<Rightarrow> Pub_start_finish p h))"

text \<open>\<open>dict.update\<close>: one assignment per item of the other dictionary.\<close>

definition dict_update :: "('k \<times> 'v) list \<Rightarrow> ('k \<times> 'v) list \<Rightarrow> ('k \<times> 'v) list" where
  "dict_update other d = fold (\<lambda>(k, v). AList.update k v) other d"

text \<open>
  The call of a suspended \<open>_start\<close> returns \<open>result\<close>: the coroutine waits for the
  scheduler no longer, and the step that continues it is put on the loop, behind what
  waits there.
\<close>

definition Pub_start_return :: "nat \<Rightarrow> result \<Rightarrow> 'm host \<Rightarrow> 'm host" where
  "Pub_start_return p result h =
     h\<lparr>awaiting := awaiting h - {p}, loop := loop h @ [Start_resume p result]\<rparr>"

text \<open>\<open>_start\<close> on a worker from its \<open>await\<close>, which gives \<open>result\<close>, to its end.\<close>

definition Pub_start_resume :: "nat \<Rightarrow> result \<Rightarrow> 'm host \<Rightarrow> 'm host" where
  "Pub_start_resume p result h =
     (case pub_objs h p of
        None \<Rightarrow> h
      | Some pub \<Rightarrow>
          Pub_start_finish p
            (h\<lparr>pub_objs := (pub_objs h)
                 (p \<mapsto> pub\<lparr>pub_subscribers :=
                              dict_update (result_subscribers result) (pub_subscribers pub)\<rparr>),
               publish_to_scheduler := (publish_to_scheduler h)
                 (pub_name pub \<mapsto> result_publish_scheduler result)\<rparr>))"

text \<open>
  \<open>_put\<close>. \<open>for sub in self.subscribers\<close> runs over the keys of the dictionary;
  \<open>publish_to_scheduler[self.name]\<close> is a read of a \<open>defaultdict(lambda: False)\<close>.
\<close>

definition Pub__put :: "nat \<Rightarrow> 'm \<Rightarrow> 'm host \<Rightarrow> 'm host" where
  "Pub__put p msg h =
     (case pub_objs h p of
        None \<Rightarrow> h
      | Some pub \<Rightarrow>
          if \<not> pub_started pub then
            h\<lparr>pub_objs := (pub_objs h)(p \<mapsto> pub\<lparr>pub_buffer := pub_buffer pub @ [msg]\<rparr>)\<rparr>
          else
            (let data = Pubsub_msg (pub_name pub) (To_serialize msg) in
             case pub_worker pub of
               Some w \<Rightarrow>
                 (let h1 = h\<lparr>sent := sent h
                               @ map (\<lambda>sub. Send_to_worker sub data) (map fst (pub_subscribers pub))\<rparr>;
                      flags = inserted False (publish_to_scheduler h1) (pub_name pub);
                      h2 = h1\<lparr>publish_to_scheduler := flags\<rparr>
                  in if getitem False flags (pub_name pub)
                     then h2\<lparr>sent := sent h2 @ [Batched_stream_send data]\<rparr>
                     else h2)
             | None \<Rightarrow>
                 (case pub_client pub of
                    Some c \<Rightarrow> h\<lparr>sent := sent h @ [Scheduler_comm_send data]\<rparr>
                  | None \<Rightarrow> h)))"

text \<open>
  The event loop takes what stands at the head of its queue and runs it. The callback
  \<open>self._start\<close> makes the coroutine, and its first step joins the queue at the end.
\<close>

fun run_callback :: "'m callback \<Rightarrow> 'm host \<Rightarrow> 'm host" where
  "run_callback (Start p) h = h\<lparr>loop := loop h @ [Start_body p]\<rparr>"
| "run_callback (Start_body p) h = Pub_start p h"
| "run_callback (Start_resume p result) h = Pub_start_resume p result h"
| "run_callback (Publishers_add name p) h =
     h\<lparr>ext_publishers := (ext_publishers h)(name \<mapsto> weak_add p (objects (ext_publishers h) name))\<rparr>"
| "run_callback (Put p msg) h = Pub__put p msg h"

definition loop_step :: "'m host \<Rightarrow> 'm host" where
  "loop_step h = (case loop h of [] \<Rightarrow> h | cb # rest \<Rightarrow> run_callback cb (h\<lparr>loop := rest\<rparr>))"



text \<open>
  The states a process can be in: it starts empty, user code makes a \<open>Pub\<close> (a new
  object) or calls \<open>put\<close> on one, the loop runs what is next, the scheduler answers a
  suspended \<open>_start\<close>, or a stream event reaches a handler of the worker or of the
  client extension. The collection of an endpoint and the \<open>cleanup\<close> that follows it end
  the life of the object and write no attribute of a \<open>Pub\<close>; they are not steps here.
\<close>

inductive reachable :: "'m host \<Rightarrow> bool" where
  reach_init: "reachable host_init"
| reach_Pub: "reachable h \<Longrightarrow> pub_objs h p = None \<Longrightarrow> Pub_init p name worker client h = Inr h'
    \<Longrightarrow> reachable h'"
| reach_put: "reachable h \<Longrightarrow> reachable (Pub_put p msg h)"
| reach_loop: "reachable h \<Longrightarrow> reachable (loop_step h)"
| reach_return: "reachable h \<Longrightarrow> p \<in> awaiting h \<Longrightarrow> reachable (Pub_start_return p result h)"
| reach_add_subscriber: "reachable h \<Longrightarrow> reachable (worker_add_subscriber name address info h)"
| reach_remove_subscriber: "reachable h \<Longrightarrow> worker_remove_subscriber name address h = Inr h'
    \<Longrightarrow> reachable h'"
| reach_publish_scheduler: "reachable h \<Longrightarrow> reachable (publish_scheduler name publish h)"
| reach_worker_message: "reachable h \<Longrightarrow> reachable (worker_handle_message name msg h)"
| reach_client_message: "reachable h \<Longrightarrow> reachable (client_handle_message name msg h)"

subsubsection \<open>\<open>Sub\<close>\<close>

text \<open>
  \<open>_get\<close> waits in a loop, so its result depends on the clock and on when the condition
  is notified. One round of the loop is given by the value that \<open>time()\<close> returns in it
  and by the notification that ends its wait: \<open>Some (d, b)\<close> when the condition is
  notified \<open>d\<close> seconds into the wait and the loop then finds the buffer \<open>b\<close>, \<open>None\<close>
  when it is never notified. \<open>asyncio.wait_for\<close> with a timeout above zero raises
  \<open>TimeoutError\<close> unless the wait ends before the timeout, and without one it waits as
  long as it takes. With the timeout zero it cancels the waiter \<open>_()\<close> before that has
  run, so the lock of the condition is not held when \<open>finally: self.condition.release()\<close>
  runs, and the release raises \<open>RuntimeError\<close>.
\<close>

type_synonym 'm round = "real \<times> (real \<times> 'm list) option"

text \<open>
  How a call ends: it returns the head and leaves the rest of the buffer, it raises, or
  it is still waiting when the rounds are used up or because no notification comes.
\<close>

datatype 'm got = Returned 'm "'m list" | Raised error | Waiting

fun Sub__get :: "real \<Rightarrow> real option \<Rightarrow> 'm round list \<Rightarrow> 'm list \<Rightarrow> 'm got" where
  "Sub__get start timeout rounds (x # xs) = Returned x xs"
| "Sub__get start timeout [] [] = Waiting"
| "Sub__get start timeout ((now, notify) # rounds) [] =
     (case timeout of
        Some t \<Rightarrow>
          (let timeout2 = t - (now - start) in
           if timeout2 < 0 then Raised TimeoutError
           else if timeout2 = 0 then Raised RuntimeError
           else
             (case notify of
                Some (d, b) \<Rightarrow>
                  if d < timeout2 then Sub__get start timeout rounds b else Raised TimeoutError
              | None \<Rightarrow> Raised TimeoutError))
      | None \<Rightarrow>
          (case notify of
             Some (d, b) \<Rightarrow> Sub__get start timeout rounds b
           | None \<Rightarrow> Waiting))"

text \<open>
  \<open>get\<close>, with \<open>timeout\<close> as \<open>parse_timedelta\<close> returns it (seconds, or \<open>None\<close>).
  \<open>on_loop_thread\<close> is \<open>self.worker.thread_id == threading.get_ident()\<close>; in that branch
  the call is \<open>self._get()\<close>, and its result is that of the awaitable.
\<close>

definition Sub_get :: "'m sub \<Rightarrow> bool \<Rightarrow> real option \<Rightarrow> real \<Rightarrow> 'm round list \<Rightarrow> 'm got" where
  "Sub_get sub on_loop_thread timeout start rounds =
     (case sub_client sub of
        Some c \<Rightarrow> Sub__get start timeout rounds (sub_buffer sub)
      | None \<Rightarrow>
          if on_loop_thread then Sub__get start None rounds (sub_buffer sub)
          else
            (case sub_buffer sub of
               x # xs \<Rightarrow> Returned x xs
             | [] \<Rightarrow> Sub__get start timeout rounds (sub_buffer sub)))"

subsection \<open>Notions used in the statements\<close>

text \<open>
  The events \<open>{"op": "pubsub-publish-scheduler", "name": name, "publish": False}\<close> to the
  publishers \<open>ps\<close>.
\<close>

definition publish_false :: "topic \<Rightarrow> address set \<Rightarrow> 'm send set" where
  "publish_false name ps = (\<lambda>pub. Worker_send pub (Pubsub_publish_scheduler name False)) ` ps"

text \<open>
  The clients among \<open>cs\<close> whose send raises and whose identity passes the test
  \<open>elif client:\<close> of \<open>remove_subscriber\<close>.
\<close>

definition dead_clients :: "(client_id \<Rightarrow> comm option) \<Rightarrow> client_id list \<Rightarrow> client_id set" where
  "dead_clients comms cs = {c \<in> set cs. send_raises comms c \<and> c \<noteq> []}"

text \<open>What the first loop of \<open>handle_message\<close> sends when it runs over \<open>cs\<close> from \<open>s\<close>.\<close>

definition clients_sent ::
  "(client_id \<Rightarrow> comm option) \<Rightarrow> topic \<Rightarrow> 'm \<Rightarrow> client_id list \<Rightarrow> scheduler_ext \<Rightarrow> 'm send set" where
  "clients_sent comms name msg cs s =
     (\<lambda>c. Client_send c (Pubsub_msg name msg)) ` {c \<in> set cs. \<not> send_raises comms c}
     \<union> (if dead_clients comms cs \<noteq> {}
           \<and> members (client_subscribers s) name \<subseteq> dead_clients comms cs
        then publish_false name (members (publishers s) name) else {})"

text \<open>The clients among \<open>cs\<close> whose send raises.\<close>

definition raising :: "(client_id \<Rightarrow> comm option) \<Rightarrow> client_id list \<Rightarrow> client_id set" where
  "raising comms cs = {c \<in> set cs. send_raises comms c}"

text \<open>
  The tables when the first loop of \<open>handle_message\<close> has run over \<open>cs\<close> from \<open>s\<close>, in
  closed form.
\<close>

definition after_clients ::
  "(client_id \<Rightarrow> comm option) \<Rightarrow> topic \<Rightarrow> client_id list \<Rightarrow> scheduler_ext \<Rightarrow> scheduler_ext" where
  "after_clients comms name cs s =
     (let M = members (client_subscribers s) name;
          P = members (publishers s) name;
          S = members (subscribers s) name;
          D = dead_clients comms cs;
          R = raising comms cs
      in s\<lparr>client_subscribers :=
             (if D = {} then client_subscribers s
              else if M \<subseteq> D then (client_subscribers s)(name := None)
              else (client_subscribers s)(name \<mapsto> M - D)),
           publishers :=
             (if R = {} then publishers s
              else if S = {} \<and> P = {} then (publishers s)(name := None)
              else if S = {} \<or> D \<noteq> {} \<and> M \<subseteq> D then touch (publishers s) name
              else publishers s),
           subscribers :=
             (if R = {} then subscribers s
              else if S = {} \<and> P = {} then (subscribers s)(name := None)
              else touch (subscribers s) name)\<rparr>)"

text \<open>
  For the invariant of a process: the objects that the worker extension, a \<open>_start\<close>
  that is suspended or about to continue, or a waiting \<open>publishers[name].add\<close> refers to;
  whether a \<open>Pub\<close> has a worker and a client; and the subscribers of a \<open>Pub\<close> without a
  worker.
\<close>

definition referenced :: "'m host \<Rightarrow> nat set" where
  "referenced h =
     awaiting h \<union> {p. \<exists>name. p \<in> set (objects (ext_publishers h) name)}
       \<union> {p. \<exists>name. Publishers_add name p \<in> set (loop h)}
       \<union> {p. \<exists>result. Start_resume p result \<in> set (loop h)}"

definition kind :: "'m host \<Rightarrow> nat \<Rightarrow> (address option \<times> client_id option) option" where
  "kind h p = map_option (\<lambda>pub. (pub_worker pub, pub_client pub)) (pub_objs h p)"

definition client_subscribers_of :: "'m host \<Rightarrow> nat \<Rightarrow> (address \<times> info) list option" where
  "client_subscribers_of h p =
     (case pub_objs h p of
        None \<Rightarrow> None
      | Some pub \<Rightarrow> if pub_worker pub = None then Some (pub_subscribers pub) else None)"

text \<open>
  Whatever is referred to is a \<open>Pub\<close> on a worker, and a \<open>Pub\<close> without a worker has a
  client and no subscribers.
\<close>

definition host_inv :: "'m host \<Rightarrow> bool" where
  "host_inv h =
     ((\<forall>p \<in> referenced h. \<exists>w c. kind h p = Some (Some w, c))
      \<and> (\<forall>p c. kind h p = Some (None, c) \<longrightarrow> c \<noteq> None \<and> client_subscribers_of h p = Some []))"

subsection \<open>States used as examples\<close>

text \<open>
  A worker with one \<open>Pub\<close> of topic \<open>T\<close> that is started, is in
  \<open>publishers["T"]\<close> of the extension, and has no subscribers.
\<close>

definition one_pub :: "nat host" where
  "one_pub =
     host_init\<lparr>pub_objs := [0 \<mapsto> \<lparr>pub_name = ''T'', pub_worker = Some ''tcp://a'',
                                  pub_client = None, pub_subscribers = [],
                                  pub_started = True, pub_buffer = []\<rparr>],
               ext_publishers := [''T'' \<mapsto> [0]]\<rparr>"

text \<open>
  A scheduler on which topic \<open>T\<close> has the publisher \<open>tcp://a\<close>, the worker subscriber
  \<open>tcp://b\<close> and the client subscribers \<open>c1\<close> and \<open>c2\<close>.
\<close>

definition busy :: scheduler_ext where
  "busy = \<lparr>publishers = [''T'' \<mapsto> {''tcp://a''}], subscribers = [''T'' \<mapsto> {''tcp://b''}],
           client_subscribers = [''T'' \<mapsto> {''c1'', ''c2''}]\<rparr>"

text \<open>A scheduler on which topic \<open>T\<close> has one publisher and one client subscriber.\<close>

definition client_only :: scheduler_ext where
  "client_only = \<lparr>publishers = [''T'' \<mapsto> {''tcp://a''}], subscribers = Map.empty,
                  client_subscribers = [''T'' \<mapsto> {''c1''}]\<rparr>"







text \<open>A started \<open>Pub\<close> of topic \<open>T\<close> on the worker \<open>tcp://a\<close> with two subscribers.\<close>

definition started_pub :: "nat pub" where
  "started_pub = \<lparr>pub_name = ''T'', pub_worker = Some ''tcp://a'', pub_client = None,
           pub_subscribers = [(''tcp://b'', []), (''tcp://c'', [])],
           pub_started = True, pub_buffer = []\<rparr>"

text \<open>A started \<open>Pub\<close> of topic \<open>T\<close> on the client \<open>c1\<close>.\<close>

definition client_pub :: "nat pub" where
  "client_pub = \<lparr>pub_name = ''T'', pub_worker = None, pub_client = Some ''c1'',
           pub_subscribers = [], pub_started = True, pub_buffer = []\<rparr>"

text \<open>A client process whose only \<open>Pub\<close> has run \<open>_start\<close>.\<close>

definition client_host :: "nat host" where
  "client_host = host_init\<lparr>pub_objs := [0 \<mapsto> client_pub]\<rparr>"

text \<open>A \<open>Sub\<close> of topic \<open>T\<close> with an empty buffer, on a worker and on a client.\<close>

definition worker_sub :: "nat sub" where
  "worker_sub = \<lparr>sub_worker = Some ''tcp://a'', sub_client = None, sub_name = ''T'',
                  sub_buffer = []\<rparr>"

definition client_sub :: "nat sub" where
  "client_sub = \<lparr>sub_worker = None, sub_client = Some ''c1'', sub_name = ''T'',
                  sub_buffer = []\<rparr>"

section \<open>Properties of the scheduler directory\<close>

lemma getitem_inserted [simp]: "getitem dflt (inserted dflt d name) t = getitem dflt d t"
  by (simp add: getitem_def inserted_def split: option.splits)

lemma getitem_inserted_fun [simp]: "getitem dflt (inserted dflt d name) = getitem dflt d"
  by (rule ext) simp

lemma inserted_idem [simp]: "inserted dflt (inserted dflt d name) name = inserted dflt d name"
  by (simp add: inserted_def split: option.splits)

lemma getitem_upd [simp]: "getitem dflt (d(name \<mapsto> v)) t = (if t = name then v else getitem dflt d t)"
  by (simp add: getitem_def)

lemma getitem_del [simp]: "getitem dflt (d(name := None)) t = (if t = name then dflt else getitem dflt d t)"
  by (simp add: getitem_def)

lemma inserted_upd_same [simp]: "inserted dflt (d(name \<mapsto> v)) name = d(name \<mapsto> v)"
  by (simp add: inserted_def)

lemma dom_inserted [simp]: "dom (inserted dflt d name) = insert name (dom d)"
  by (auto simp: inserted_def split: option.splits)

text \<open>
  C3. \<open>add_publisher name worker\<close> puts \<open>worker\<close> into \<open>publishers[name]\<close> and changes the
  members of no other set; its reply maps exactly the addresses of \<open>subscribers[name]\<close> to
  the empty info and carries the flag \<open>client_subscribers[name] \<noteq> {}\<close>. A second call
  with the same arguments leaves the state of the first call as it is, and its reply is
  the snapshot of that state.
\<close>

theorem add_publisher_snapshot:
  fixes s :: scheduler_ext and name :: topic and worker :: address
  defines "s1 \<equiv> fst (add_publisher name worker s)"
  defines "r1 \<equiv> snd (add_publisher name worker s)"
  defines "s2 \<equiv> fst (add_publisher name worker s1)"
  defines "r2 \<equiv> snd (add_publisher name worker s1)"
  shows "members (publishers s1) name = insert worker (members (publishers s) name)
       \<and> members (publishers s1) = (members (publishers s))
             (name := insert worker (members (publishers s) name))
       \<and> members (subscribers s1) = members (subscribers s)
       \<and> client_subscribers s1 = client_subscribers s
       \<and> reply_subscribers r1 =
           (\<lambda>addr. if addr \<in> members (subscribers s) name then Some [] else None)
       \<and> dom (reply_subscribers r1) = members (subscribers s) name
       \<and> reply_publish_scheduler r1 = (members (client_subscribers s) name \<noteq> {})
       \<and> s2 = s1
       \<and> reply_subscribers r2 =
           (\<lambda>addr. if addr \<in> members (subscribers s1) name then Some [] else None)
       \<and> reply_publish_scheduler r2 = (members (client_subscribers s1) name \<noteq> {})"
proof -
  have flag: "\<And>d :: client_id table. (name \<in> dom d \<and> members d name \<noteq> {}) = (members d name \<noteq> {})"
    by (auto simp: getitem_def split: option.splits)
  have dom_if: "\<And>A :: address set. dom (\<lambda>addr. if addr \<in> A then Some ([] :: info) else None) = A"
    by (auto split: if_splits)
  show ?thesis
    unfolding s1_def r1_def s2_def r2_def
    by (simp add: add_publisher_def Let_def flag dom_if fun_eq_iff insert_absorb)
qed

lemma delete_if_unused_members [simp]:
  "members (publishers (delete_if_unused name s)) = members (publishers s)"
  "members (subscribers (delete_if_unused name s)) = members (subscribers s)"
  "client_subscribers (delete_if_unused name s) = client_subscribers s"
  by (auto simp: delete_if_unused_def Let_def fun_eq_iff)




text \<open>
  C1. Removing what is absent is not always without effect, and can raise.
  \<open>remove_subscriber\<close> for a worker or for a client that the topic does not hold raises
  \<open>KeyError\<close> (here on the empty directory), as \<open>remove_subscriber\<close> of the worker
  extension does for an address that a publisher of the topic does not hold; and
  \<open>remove_publisher\<close> for an absent worker leaves a state that differs from the one
  before, with an entry for the topic.
\<close>

theorem remove_absent_raises:
  "remove_subscriber ''T'' (Some ''tcp://b'') None scheduler_init
     = (Inl KeyError :: error + scheduler_ext \<times> nat send set)
   \<and> remove_subscriber ''T'' None (Some ''c1'') scheduler_init
     = (Inl KeyError :: error + scheduler_ext \<times> nat send set)
   \<and> worker_remove_subscriber ''T'' ''tcp://b'' one_pub = Inl KeyError
   \<and> remove_publisher ''T'' ''tcp://a'' scheduler_init
     = scheduler_init\<lparr>publishers := [''T'' \<mapsto> {}]\<rparr>
   \<and> remove_publisher ''T'' ''tcp://a'' scheduler_init \<noteq> scheduler_init"
  by (simp add: remove_subscriber_def remove_publisher_def worker_remove_subscriber_def
      scheduler_init_def one_pub_def host_init_def Let_def getitem_def inserted_def fun_eq_iff)

text \<open>
  C2. A message of a client for a topic that nobody has registered, handled from the
  initial state, leaves the topic as a key of \<open>subscribers\<close> and of \<open>client_subscribers\<close>
  while all three of its sets are empty: a topic can be present with nothing in it.
\<close>

theorem handle_message_leaves_empty_topic:
  "handle_message Map.empty ''T'' (0 :: nat) None (Some ''c1'') [] scheduler_init
     = Inr (scheduler_init\<lparr>subscribers := [''T'' \<mapsto> {}],
                            client_subscribers := [''T'' \<mapsto> {}]\<rparr>, {})
   \<and> ''T'' \<in> dom (client_subscribers
        (scheduler_init\<lparr>subscribers := [''T'' \<mapsto> {}], client_subscribers := [''T'' \<mapsto> {}]\<rparr>))
   \<and> members (publishers
        (scheduler_init\<lparr>subscribers := [''T'' \<mapsto> {}], client_subscribers := [''T'' \<mapsto> {}]\<rparr>))
        ''T'' = {}
   \<and> members (subscribers
        (scheduler_init\<lparr>subscribers := [''T'' \<mapsto> {}], client_subscribers := [''T'' \<mapsto> {}]\<rparr>))
        ''T'' = {}
   \<and> members (client_subscribers
        (scheduler_init\<lparr>subscribers := [''T'' \<mapsto> {}], client_subscribers := [''T'' \<mapsto> {}]\<rparr>))
        ''T'' = {}"
  by (simp add: handle_message_def scheduler_init_def Let_def getitem_def inserted_def)





lemma remove_subscriber_client:
  assumes "c \<noteq> []" and "c \<in> members (client_subscribers s) name"
  shows "\<exists>s'. remove_subscriber name None (Some c) s =
           Inr (s', if members (client_subscribers s) name - {c} = {}
                    then publish_false name (members (publishers s) name) else {})
        \<and> members (client_subscribers s') =
            (members (client_subscribers s))(name := members (client_subscribers s) name - {c})
        \<and> members (publishers s') = members (publishers s)
        \<and> members (subscribers s') = members (subscribers s)"
  using assms
  by (auto simp: remove_subscriber_def Let_def publish_false_def fun_eq_iff)

lemma remove_subscriber_falsy:
  "remove_subscriber name None (Some []) s = Inr (delete_if_unused name s, {})"
  by (simp add: remove_subscriber_def)


lemma handle_message_clients_effect:
  fixes s :: scheduler_ext and out :: "'m send set"
  assumes "distinct cs" and "set cs \<subseteq> members (client_subscribers s) name"
  shows "\<exists>s'. handle_message_clients comms name msg cs (s, out)
             = Inr (s', out \<union> clients_sent comms name msg cs s)
        \<and> members (client_subscribers s') =
            (members (client_subscribers s))
              (name := members (client_subscribers s) name - dead_clients comms cs)
        \<and> members (publishers s') = members (publishers s)
        \<and> members (subscribers s') = members (subscribers s)"
  using assms
proof (induction cs arbitrary: s out)
  case Nil
  show ?case
    by (rule exI [of _ s]) (simp add: clients_sent_def dead_clients_def fun_eq_iff)
next
  case (Cons c cs)
  let ?M = "members (client_subscribers s) name"
  have c_in: "c \<in> ?M" and c_notin: "c \<notin> set cs" and dist: "distinct cs"
    and sub: "set cs \<subseteq> ?M"
    using Cons.prems by auto
  have not_all: "\<not> ?M \<subseteq> dead_clients comms cs"
    using c_in c_notin by (auto simp: dead_clients_def)
  consider (alive) "\<not> send_raises comms c"
    | (falsy) "send_raises comms c" "c = []"
    | (dead) "send_raises comms c" "c \<noteq> []"
    by blast
  then show ?case
  proof cases
    case alive
    let ?a = "Client_send c (Pubsub_msg name msg) :: 'm send"
    from Cons.IH [OF dist sub, of "insert ?a out"]
    obtain s' where
      run: "handle_message_clients comms name msg cs (s, insert ?a out)
            = Inr (s', insert ?a out \<union> clients_sent comms name msg cs s)"
      and eff: "members (client_subscribers s') =
                  (members (client_subscribers s))(name := ?M - dead_clients comms cs)"
        "members (publishers s') = members (publishers s)"
        "members (subscribers s') = members (subscribers s)"
      by blast
    have D: "dead_clients comms (c # cs) = dead_clients comms cs"
      using alive by (auto simp: dead_clients_def)
    have not_all': "\<not> ?M \<subseteq> dead_clients comms (c # cs)"
      using not_all D by simp
    have X: "insert ?a out \<union> clients_sent comms name msg cs s
           = out \<union> clients_sent comms name msg (c # cs) s"
      unfolding clients_sent_def using alive not_all not_all' by auto
    have "handle_message_clients comms name msg (c # cs) (s, out)
        = Inr (s', out \<union> clients_sent comms name msg (c # cs) s)"
      using alive run X by simp
    then show ?thesis
      using eff unfolding D by (intro exI [of _ s'] conjI)
  next
    case falsy
    let ?s = "delete_if_unused name s"
    have sub': "set cs \<subseteq> members (client_subscribers ?s) name"
      using sub by simp
    from Cons.IH [OF dist sub', of out]
    obtain s' where
      run: "handle_message_clients comms name msg cs (?s, out)
            = Inr (s', out \<union> clients_sent comms name msg cs ?s)"
      and eff: "members (client_subscribers s') =
                  (members (client_subscribers ?s))
                    (name := members (client_subscribers ?s) name - dead_clients comms cs)"
        "members (publishers s') = members (publishers ?s)"
        "members (subscribers s') = members (subscribers ?s)"
      by blast
    have D: "dead_clients comms (c # cs) = dead_clients comms cs"
      using falsy by (auto simp: dead_clients_def)
    have not_all': "\<not> ?M \<subseteq> dead_clients comms (c # cs)"
      using not_all D by simp
    have X: "clients_sent comms name msg cs ?s = clients_sent comms name msg (c # cs) s"
      unfolding clients_sent_def using falsy not_all not_all' by auto
    have "handle_message_clients comms name msg (c # cs) (s, out)
        = Inr (s', out \<union> clients_sent comms name msg (c # cs) s)"
      using falsy run X by (simp add: remove_subscriber_falsy)
    then show ?thesis
      using eff unfolding D by (intro exI [of _ s'] conjI) simp_all
  next
    case dead
    let ?P = "publish_false name (members (publishers s) name) :: 'm send set"
    let ?out1 = "if ?M - {c} = {} then ?P else {}"
    from remove_subscriber_client [OF dead(2) c_in]
    obtain s1 where
      rm: "remove_subscriber name None (Some c) s = Inr (s1, ?out1)"
      and s1: "members (client_subscribers s1) = (members (client_subscribers s))(name := ?M - {c})"
        "members (publishers s1) = members (publishers s)"
        "members (subscribers s1) = members (subscribers s)"
      by blast
    have sub': "set cs \<subseteq> members (client_subscribers s1) name"
      using sub c_notin by (auto simp: s1)
    from Cons.IH [OF dist sub', of "out \<union> ?out1"]
    obtain s' where
      run: "handle_message_clients comms name msg cs (s1, out \<union> ?out1)
            = Inr (s', out \<union> ?out1 \<union> clients_sent comms name msg cs s1)"
      and eff: "members (client_subscribers s') =
                  (members (client_subscribers s1))
                    (name := members (client_subscribers s1) name - dead_clients comms cs)"
        "members (publishers s') = members (publishers s1)"
        "members (subscribers s') = members (subscribers s1)"
      by blast
    have D: "dead_clients comms (c # cs) = insert c (dead_clients comms cs)"
      using dead by (auto simp: dead_clients_def)
    have Dsub: "dead_clients comms cs \<subseteq> ?M - {c}"
      using sub c_notin by (auto simp: dead_clients_def)
    have M1: "members (client_subscribers s1) name = ?M - {c}"
      by (simp add: s1)
    have key: "(?M \<subseteq> insert c (dead_clients comms cs)) = (?M - {c} \<subseteq> dead_clients comms cs)"
      by auto
    have X: "out \<union> ?out1 \<union> clients_sent comms name msg cs s1
           = out \<union> clients_sent comms name msg (c # cs) s"
    proof (cases "?M - {c} = {}")
      case True
      then have "dead_clients comms cs = {}"
        using Dsub by auto
      then show ?thesis
        unfolding clients_sent_def D M1 s1(2) key using True dead by auto
    next
      case False
      then show ?thesis
        unfolding clients_sent_def D M1 s1(2) key using dead by auto
    qed
    have "handle_message_clients comms name msg (c # cs) (s, out)
        = Inr (s', out \<union> clients_sent comms name msg (c # cs) s)"
      using dead run rm X by simp
    moreover have "members (client_subscribers s') =
        (members (client_subscribers s))(name := ?M - dead_clients comms (c # cs))"
      unfolding D eff(1) s1 by (auto simp: fun_eq_iff)
    ultimately show ?thesis
      using eff(2,3) s1(2,3) by (intro exI [of _ s'] conjI) simp_all
  qed
qed

lemma touch_eq: "touch d name = d(name \<mapsto> members d name)"
  by (auto simp: inserted_def getitem_def fun_eq_iff split: option.splits)

lemma touch_nonempty: "members d name \<noteq> {} \<Longrightarrow> touch d name = d"
  by (auto simp: inserted_def getitem_def split: option.splits)

lemma touch_del [simp]: "(inserted dflt d name)(name := None) = d(name := None)"
  by (auto simp: inserted_def fun_eq_iff split: option.splits)

lemma touch_upd [simp]: "(inserted dflt d name)(name \<mapsto> v) = d(name \<mapsto> v)"
  by (auto simp: inserted_def fun_eq_iff split: option.splits)

lemma delete_if_unused_exact:
  "delete_if_unused name s =
     (if members (subscribers s) name = {} \<and> members (publishers s) name = {}
      then s\<lparr>subscribers := (subscribers s)(name := None),
             publishers := (publishers s)(name := None)\<rparr>
      else if members (subscribers s) name = {}
      then s\<lparr>subscribers := touch (subscribers s) name, publishers := touch (publishers s) name\<rparr>
      else s\<lparr>subscribers := touch (subscribers s) name\<rparr>)"
  by (simp add: delete_if_unused_def Let_def)

lemma dead_raising: "raising comms cs = {} \<Longrightarrow> dead_clients comms cs = {}"
  by (auto simp: dead_clients_def raising_def)

lemma after_alive:
  "\<not> send_raises comms c \<Longrightarrow> after_clients comms name (c # cs) s = after_clients comms name cs s"
proof -
  assume a: "\<not> send_raises comms c"
  have "dead_clients comms (c # cs) = dead_clients comms cs"
    "raising comms (c # cs) = raising comms cs"
    using a by (auto simp: dead_clients_def raising_def)
  then show ?thesis by (simp add: after_clients_def)
qed

lemma after_falsy:
  assumes "send_raises comms c" "c = []" "c \<in> members (client_subscribers s) name"
  shows "after_clients comms name cs (delete_if_unused name s) = after_clients comms name (c # cs) s"
proof -
  have D: "dead_clients comms (c # cs) = dead_clients comms cs"
    using assms by (auto simp: dead_clients_def)
  have R: "raising comms (c # cs) \<noteq> {}"
    using assms(1) by (auto simp: raising_def)
  have notall: "\<not> members (client_subscribers s) name \<subseteq> dead_clients comms cs"
    using assms by (auto simp: dead_clients_def)
  show ?thesis
  proof (cases "raising comms cs = {}")
    case True
    then have "dead_clients comms cs = {}" by (rule dead_raising)
    then show ?thesis
      unfolding after_clients_def Let_def D
      using R True
      by (intro scheduler_ext.equality) (simp_all add: delete_if_unused_exact touch_nonempty)
  next
    case False
    then show ?thesis
      unfolding after_clients_def Let_def D
      using R notall
      by (intro scheduler_ext.equality) (simp_all add: delete_if_unused_exact touch_nonempty)
  qed
qed


lemma remove_subscriber_exact:
  assumes "c \<noteq> []" and "c \<in> members (client_subscribers s) name"
  shows "remove_subscriber name None (Some c) s =
           Inr (delete_if_unused name
                  (if members (client_subscribers s) name - {c} = {}
                   then s\<lparr>client_subscribers := (client_subscribers s)(name := None),
                          publishers := touch (publishers s) name\<rparr>
                   else s\<lparr>client_subscribers :=
                            (client_subscribers s)(name \<mapsto> members (client_subscribers s) name - {c})\<rparr>),
                if members (client_subscribers s) name - {c} = {}
                then publish_false name (members (publishers s) name) else {})"
  using assms by (simp add: remove_subscriber_def Let_def publish_false_def)

lemma after_dead:
  assumes "send_raises comms c" "c \<noteq> []" "c \<in> members (client_subscribers s) name"
    and "c \<notin> set cs" and "set cs \<subseteq> members (client_subscribers s) name"
  defines "M \<equiv> members (client_subscribers s) name"
  defines "s1 \<equiv> delete_if_unused name
                  (if M - {c} = {}
                   then s\<lparr>client_subscribers := (client_subscribers s)(name := None),
                          publishers := touch (publishers s) name\<rparr>
                   else s\<lparr>client_subscribers := (client_subscribers s)(name \<mapsto> M - {c})\<rparr>)"
  shows "after_clients comms name cs s1 = after_clients comms name (c # cs) s"
proof -
  have D: "dead_clients comms (c # cs) = insert c (dead_clients comms cs)"
    using assms(1,2) by (auto simp: dead_clients_def)
  have R: "raising comms (c # cs) \<noteq> {}"
    using assms(1) by (auto simp: raising_def)
  have Dsub: "dead_clients comms cs \<subseteq> M - {c}"
    using assms(4,5) by (auto simp: dead_clients_def M_def)
  have key: "(M \<subseteq> insert c (dead_clients comms cs)) = (M - {c} \<subseteq> dead_clients comms cs)"
    by auto
  have diff: "M - insert c (dead_clients comms cs) = M - {c} - dead_clients comms cs"
    by auto
  show ?thesis
  proof (cases "M - {c} = {}")
    case True
    then have D0: "dead_clients comms cs = {}" using Dsub by auto
    have "set cs \<subseteq> M - {c}" using assms(4,5) by (auto simp: M_def)
    then have "cs = []" unfolding True by simp
    then have R0: "raising comms cs = {}" by (simp add: raising_def)
    have all: "M \<subseteq> {c}" using True by auto
    show ?thesis
      unfolding after_clients_def Let_def D s1_def
      using R True D0 R0 all
      by (intro scheduler_ext.equality)
         (simp_all add: delete_if_unused_exact touch_nonempty M_def [symmetric])
  next
    case False
    then have notall: "\<not> M \<subseteq> {c}" by auto
    show ?thesis
    proof (cases "raising comms cs = {}")
      case True
      then have D0: "dead_clients comms cs = {}" by (rule dead_raising)
      show ?thesis
        unfolding after_clients_def Let_def D s1_def
        using R False D0 True notall
        by (intro scheduler_ext.equality)
           (simp_all add: delete_if_unused_exact touch_nonempty M_def [symmetric])
    next
      case nonempty: False
      show ?thesis
      proof (cases "dead_clients comms cs = {}")
        case True
        show ?thesis
          unfolding after_clients_def Let_def D s1_def
          using R False True nonempty notall
          by (intro scheduler_ext.equality)
             (simp_all add: delete_if_unused_exact touch_nonempty M_def [symmetric])
      next
        case D1: False
        show ?thesis
          unfolding after_clients_def Let_def D s1_def
          using R False D1 nonempty
          by (intro scheduler_ext.equality)
             (simp_all add: delete_if_unused_exact touch_nonempty M_def [symmetric] key diff)
      qed
    qed
  qed
qed


lemma after_clients_Nil [simp]: "after_clients comms name [] s = s"
  by (simp add: after_clients_def dead_clients_def raising_def)

lemma handle_message_clients_state:
  fixes s :: scheduler_ext and out :: "'m send set"
  assumes "distinct cs" and "set cs \<subseteq> members (client_subscribers s) name"
  shows "\<exists>out'. handle_message_clients comms name msg cs (s, out)
             = Inr (after_clients comms name cs s, out')"
  using assms
proof (induction cs arbitrary: s out)
  case Nil
  show ?case by simp
next
  case (Cons c cs)
  let ?M = "members (client_subscribers s) name"
  have c_in: "c \<in> ?M" and c_notin: "c \<notin> set cs" and dist: "distinct cs"
    and sub: "set cs \<subseteq> ?M"
    using Cons.prems by auto
  consider (alive) "\<not> send_raises comms c"
    | (falsy) "send_raises comms c" "c = []"
    | (dead) "send_raises comms c" "c \<noteq> []"
    by blast
  then show ?case
  proof cases
    case alive
    from Cons.IH [OF dist sub, of "insert (Client_send c (Pubsub_msg name msg)) out"]
    show ?thesis
      using alive by (simp add: after_alive)
  next
    case falsy
    have sub': "set cs \<subseteq> members (client_subscribers (delete_if_unused name s)) name"
      using sub by simp
    from Cons.IH [OF dist sub', of out]
    show ?thesis
      using falsy c_in by (simp add: remove_subscriber_falsy after_falsy)
  next
    case dead
    let ?s1 = "delete_if_unused name
                  (if ?M - {c} = {}
                   then s\<lparr>client_subscribers := (client_subscribers s)(name := None),
                          publishers := touch (publishers s) name\<rparr>
                   else s\<lparr>client_subscribers := (client_subscribers s)(name \<mapsto> ?M - {c})\<rparr>)"
    let ?out1 = "(if ?M - {c} = {}
                then publish_false name (members (publishers s) name) else {}) :: 'm send set"
    have rm: "remove_subscriber name None (Some c) s = Inr (?s1, ?out1)"
      by (rule remove_subscriber_exact [OF dead(2) c_in])
    have subM: "set cs \<subseteq> ?M - {c}"
      using sub c_notin by auto
    have M1: "members (client_subscribers ?s1) name = ?M - {c}"
      by simp
    have sub': "set cs \<subseteq> members (client_subscribers ?s1) name"
      unfolding M1 by (rule subM)
    have eq: "after_clients comms name cs ?s1 = after_clients comms name (c # cs) s"
      by (rule after_dead [OF dead c_in c_notin sub])
    from Cons.IH [OF dist sub', of "out \<union> ?out1"]
    obtain out' where "handle_message_clients comms name msg cs (?s1, out \<union> ?out1)
        = Inr (after_clients comms name cs ?s1, out')"
      by blast
    then have "handle_message_clients comms name msg (c # cs) (s, out)
        = Inr (after_clients comms name (c # cs) s, out')"
      using dead(1) rm eq by simp
    then show ?thesis by blast
  qed
qed

lemma handle_message_clients_exact:
  fixes s :: scheduler_ext and out :: "'m send set"
  assumes "distinct cs" and "set cs \<subseteq> members (client_subscribers s) name"
  shows "handle_message_clients comms name msg cs (s, out)
           = Inr (after_clients comms name cs s, out \<union> clients_sent comms name msg cs s)"
proof -
  from handle_message_clients_state [OF assms, of comms msg out]
  obtain out' where a: "handle_message_clients comms name msg cs (s, out)
             = Inr (after_clients comms name cs s, out')"
    by blast
  from handle_message_clients_effect [OF assms, of comms msg out]
  obtain s' where b: "handle_message_clients comms name msg cs (s, out)
             = Inr (s', out \<union> clients_sent comms name msg cs s)"
    by blast
  from a b show ?thesis by simp
qed

text \<open>
  C7. Let \<open>order\<close> list the client subscribers of the topic, each once. Then
  \<open>handle_message\<close> returns, and the statement gives all that it sends and the state it
  leaves. It sends \<open>{"op": "pubsub-msg", "name": name, "msg": msg}\<close> to every client
  subscriber whose send does not raise, and to every worker subscriber exactly when
  \<open>client\<close> is given. Every client whose send raises has gone through
  \<open>remove_subscriber(name=name, client=c)\<close>, and the tables are as these calls leave
  them: the clients among them that pass its test \<open>elif client:\<close> are no longer client
  subscribers; when none is left, the topic is deleted from \<open>client_subscribers\<close> and the
  publishers have been told \<open>publish: False\<close>; and when a send has raised and the topic
  has neither a publisher nor a worker subscriber, it is deleted from \<open>publishers\<close> and
  from \<open>subscribers\<close>. The other changes are the empty entries that a read of a
  \<open>defaultdict\<close> stores: of \<open>client_subscribers[name]\<close> at the start, of
  \<open>subscribers[name]\<close> and \<open>publishers[name]\<close> in \<open>remove_subscriber\<close>, and of
  \<open>subscribers[name]\<close> at the end when \<open>client\<close> is given, which puts an empty entry
  back where the topic had been deleted.
\<close>

theorem handle_message_fanout:
  fixes s :: scheduler_ext and msg :: 'm and comms :: "client_id \<Rightarrow> comm option"
    and name :: topic and worker :: "address option" and client :: "client_id option"
    and order :: "client_id list"
  assumes "set order = members (client_subscribers s) name" and "distinct order"
  defines "raised \<equiv> {c \<in> members (client_subscribers s) name. send_raises comms c}"
  defines "failed \<equiv> {c \<in> members (client_subscribers s) name. send_raises comms c \<and> c \<noteq> []}"
  defines "unused \<equiv> members (subscribers s) name = {} \<and> members (publishers s) name = {}"
  shows "handle_message comms name msg worker client order s =
           Inr (s\<lparr>client_subscribers :=
                    (if failed = {} then touch (client_subscribers s) name
                     else if members (client_subscribers s) name \<subseteq> failed
                     then (client_subscribers s)(name := None)
                     else (client_subscribers s)
                            (name \<mapsto> members (client_subscribers s) name - failed)),
                  publishers :=
                    (if raised = {} then publishers s
                     else if unused then (publishers s)(name := None)
                     else if members (subscribers s) name = {}
                             \<or> failed \<noteq> {} \<and> members (client_subscribers s) name \<subseteq> failed
                     then touch (publishers s) name
                     else publishers s),
                  subscribers :=
                    (if truthy_arg client = None \<and> raised = {} then subscribers s
                     else if truthy_arg client = None \<and> unused then (subscribers s)(name := None)
                     else touch (subscribers s) name)\<rparr>,
                (\<lambda>c. Client_send c (Pubsub_msg name msg))
                      ` {c \<in> members (client_subscribers s) name. \<not> send_raises comms c}
                    \<union> (if failed \<noteq> {} \<and> members (client_subscribers s) name \<subseteq> failed
                       then publish_false name (members (publishers s) name) else {})
                    \<union> (if truthy_arg client \<noteq> None
                       then (\<lambda>sub. Worker_send sub (Pubsub_msg name msg))
                              ` members (subscribers s) name
                       else {}))"
proof -
  let ?s0 = "s\<lparr>client_subscribers := touch (client_subscribers s) name\<rparr>"
  let ?s1 = "after_clients comms name order ?s0"
  have sub: "set order \<subseteq> members (client_subscribers ?s0) name"
    using assms(1) by simp
  have run: "handle_message_clients comms name msg order (?s0, {})
            = Inr (?s1, {} \<union> clients_sent comms name msg order ?s0)"
    by (rule handle_message_clients_exact [OF assms(2) sub])
  have dead: "dead_clients comms order = failed"
    using assms(1) by (auto simp: dead_clients_def failed_def)
  have raising: "raising comms order = raised"
    using assms(1) by (auto simp: raising_def raised_def)
  have sent: "clients_sent comms name msg order ?s0 =
      (\<lambda>c. Client_send c (Pubsub_msg name msg))
         ` {c \<in> members (client_subscribers s) name. \<not> send_raises comms c}
      \<union> (if failed \<noteq> {} \<and> members (client_subscribers s) name \<subseteq> failed
         then publish_false name (members (publishers s) name) else {})"
    unfolding clients_sent_def dead using assms(1) by simp
  have s1: "?s1 = s\<lparr>client_subscribers :=
                    (if failed = {} then touch (client_subscribers s) name
                     else if members (client_subscribers s) name \<subseteq> failed
                     then (client_subscribers s)(name := None)
                     else (client_subscribers s)
                            (name \<mapsto> members (client_subscribers s) name - failed)),
                  publishers :=
                    (if raised = {} then publishers s
                     else if unused then (publishers s)(name := None)
                     else if members (subscribers s) name = {}
                             \<or> failed \<noteq> {} \<and> members (client_subscribers s) name \<subseteq> failed
                     then touch (publishers s) name
                     else publishers s),
                  subscribers :=
                    (if raised = {} then subscribers s
                     else if unused then (subscribers s)(name := None)
                     else touch (subscribers s) name)\<rparr>"
    unfolding after_clients_def Let_def dead raising
    by (intro scheduler_ext.equality) (simp_all add: unused_def)
  have S1: "members (subscribers ?s1) name = members (subscribers s) name"
    unfolding s1 by (simp add: unused_def)
  show ?thesis
  proof (cases "truthy_arg client")
    case None
    have "handle_message comms name msg worker client order s
        = Inr (?s1, clients_sent comms name msg order ?s0)"
      using run None by (simp add: handle_message_def)
    then show ?thesis
      unfolding sent s1 using None by simp
  next
    case (Some c)
    let ?s2 = "?s1\<lparr>subscribers := touch (subscribers ?s1) name\<rparr>"
    have run2: "handle_message comms name msg worker client order s
        = Inr (?s2, clients_sent comms name msg order ?s0
                 \<union> (\<lambda>sub. Worker_send sub (Pubsub_msg name msg)) ` members (subscribers s) name)"
      using run Some S1 by (simp add: handle_message_def Let_def)
    have t: "touch (subscribers ?s1) name = touch (subscribers s) name"
      unfolding s1 by (simp add: unused_def touch_eq)
    have s2: "?s2 = ?s1\<lparr>subscribers := touch (subscribers s) name\<rparr>"
      by (simp only: t)
    show ?thesis
      unfolding run2 s2 sent unfolding s1 using Some by simp
  qed
qed


theorem handle_message_fanout_witness:
  "set [''c1'', ''c2''] = members (client_subscribers busy) ''T'' \<and> distinct [''c1'', ''c2'']
   \<and> handle_message [''c1'' \<mapsto> Comm_open] ''T'' (42 :: nat) None (Some ''c1'')
        [''c1'', ''c2''] busy
     = Inr (busy\<lparr>client_subscribers := [''T'' \<mapsto> {''c1''}]\<rparr>,
            {Client_send ''c1'' (Pubsub_msg ''T'' 42), Worker_send ''tcp://b'' (Pubsub_msg ''T'' 42)})
   \<and> set [''c1''] = members (client_subscribers client_only) ''T'' \<and> distinct [''c1'']
   \<and> handle_message Map.empty ''T'' (42 :: nat) (Some ''tcp://a'') None [''c1''] client_only
     = Inr (client_only\<lparr>client_subscribers := Map.empty, subscribers := [''T'' \<mapsto> {}]\<rparr>,
            {Worker_send ''tcp://a'' (Pubsub_publish_scheduler ''T'' False)})"
proof -
  have a: "set [''c1'', ''c2''] = members (client_subscribers busy) ''T''"
    and b: "distinct [''c1'', ''c2'']"
    by (auto simp: busy_def getitem_def)
  have c: "set [''c1''] = members (client_subscribers client_only) ''T''"
    and d: "distinct [''c1'']"
    by (auto simp: client_only_def getitem_def)
  have run: "handle_message [''c1'' \<mapsto> Comm_open] ''T'' (42 :: nat) None (Some ''c1'')
        [''c1'', ''c2''] busy
     = Inr (busy\<lparr>client_subscribers := [''T'' \<mapsto> {''c1''}]\<rparr>,
            {Client_send ''c1'' (Pubsub_msg ''T'' 42), Worker_send ''tcp://b'' (Pubsub_msg ''T'' 42)})"
    by (simp add: handle_message_def remove_subscriber_def delete_if_unused_def send_raises_def
        busy_def Let_def getitem_def inserted_def insert_commute)
  have run2: "handle_message Map.empty ''T'' (42 :: nat) (Some ''tcp://a'') None [''c1''] client_only
     = Inr (client_only\<lparr>client_subscribers := Map.empty, subscribers := [''T'' \<mapsto> {}]\<rparr>,
            {Worker_send ''tcp://a'' (Pubsub_publish_scheduler ''T'' False)})"
    by (simp add: handle_message_def remove_subscriber_def delete_if_unused_def send_raises_def
        client_only_def Let_def getitem_def inserted_def)
  show ?thesis
    using a b c d run run2
      handle_message_fanout [OF a b, of "[''c1'' \<mapsto> Comm_open]" "42 :: nat" None "Some ''c1''"]
      handle_message_fanout [OF c d, of Map.empty "42 :: nat" "Some ''tcp://a''" None]
    by simp
qed

text \<open>
  C4. On a message for a topic without a live subscriber the client directory sends the
  event whose \<open>"op"\<close> is \<open>"pubsub-remove-subscribers"\<close>. The scheduler extension stores
  no handler under that name; \<open>remove_subscriber\<close> is stored under
  \<open>"pubsub-remove-subscriber"\<close>.
\<close>

theorem remove_subscribers_has_no_handler:
  "sent (client_handle_message ''T'' (0 :: nat) host_init)
     = [Scheduler_comm_send (Pubsub_remove_subscribers ''T'')]
   \<and> op_name (Pubsub_remove_subscribers ''T'' :: nat serialized event)
     = ''pubsub-remove-subscribers''
   \<and> stream_handlers ''pubsub-remove-subscribers'' = None
   \<and> stream_handlers ''pubsub-remove-subscriber'' = Some Remove_subscriber"
  by (simp add: client_handle_message_def host_init_def Let_def getitem_def inserted_def
      stream_handlers_def)

section \<open>Properties of \<open>Pub\<close>\<close>

lemma fold_Pub_put: "fold (Pub_put p) ms h = h\<lparr>loop := loop h @ map (Put p) ms\<rparr>"
  by (induction ms arbitrary: h) (simp_all add: Pub_put_def)








lemma loop_Pub__put [simp]: "loop (Pub__put p msg h) = loop h"
  by (simp add: Pub__put_def Let_def split: option.splits)












lemma count_list_map_distinct:
  "distinct xs \<Longrightarrow> inj f \<Longrightarrow> count_list (map f xs) (f a) = (if a \<in> set xs then 1 else 0)"
  by (induction xs) (auto simp: inj_def)

lemma count_list_map_other: "y \<notin> range f \<Longrightarrow> count_list (map f xs) y = 0"
  by (induction xs) auto

text \<open>
  C6. For a \<open>Pub\<close> that has started, \<open>_put\<close> changes no \<open>Pub\<close> and sends the event
  \<open>{"op": "pubsub-msg", "name": name, "msg": to_serialize(msg)}\<close>: from a worker once to
  each key of \<open>self.subscribers\<close>, then once on the stream to the scheduler exactly when
  \<open>publish_to_scheduler[name]\<close> holds, and never on the client's stream; from a client
  once on the stream to the scheduler and nothing else.
\<close>

theorem started_put_sends:
  fixes h :: "'m host" and p :: nat and pub :: "'m pub" and msg :: 'm
  assumes "pub_objs h p = Some pub" and "pub_started pub"
    and "distinct (map fst (pub_subscribers pub))"
  defines "data \<equiv> Pubsub_msg (pub_name pub) (To_serialize msg)"
  defines "new \<equiv> drop (length (sent h)) (sent (Pub__put p msg h))"
  defines "publish \<equiv> getitem False (publish_to_scheduler h) (pub_name pub)"
  shows "sent (Pub__put p msg h) = sent h @ new \<and> pub_objs (Pub__put p msg h) = pub_objs h
       \<and> (case pub_worker pub of
            Some w \<Rightarrow>
              new = map (\<lambda>a. Send_to_worker a data) (map fst (pub_subscribers pub))
                      @ (if publish then [Batched_stream_send data] else [])
              \<and> (\<forall>a. count_list new (Send_to_worker a data) =
                      (if a \<in> fst ` set (pub_subscribers pub) then 1 else 0))
              \<and> count_list new (Batched_stream_send data) = (if publish then 1 else 0)
              \<and> (\<forall>e. Scheduler_comm_send e \<notin> set new)
          | None \<Rightarrow>
              (case pub_client pub of
                 Some c \<Rightarrow> new = [Scheduler_comm_send data]
               | None \<Rightarrow> new = []))"
proof (cases "pub_worker pub")
  case None
  then show ?thesis
    using assms(1,2) by (simp add: Pub__put_def Let_def new_def data_def split: option.splits)
next
  case (Some w)
  let ?direct = "map (\<lambda>a. Send_to_worker a data) (map fst (pub_subscribers pub))"
  have new: "new = ?direct @ (if publish then [Batched_stream_send data] else [])"
    and rest: "sent (Pub__put p msg h) = sent h @ new" "pub_objs (Pub__put p msg h) = pub_objs h"
    using assms(1,2) Some
    by (simp_all add: Pub__put_def Let_def new_def data_def publish_def)
  have inj: "inj (\<lambda>a. Send_to_worker a data)"
    by (simp add: inj_def)
  have direct: "count_list ?direct (Send_to_worker a data) =
      (if a \<in> fst ` set (pub_subscribers pub) then 1 else 0)" for a
    using count_list_map_distinct [OF assms(3) inj, of a] by simp
  have other: "count_list ?direct (Batched_stream_send data) = 0"
    by (rule count_list_map_other) auto
  show ?thesis
    using Some rest by (auto simp: new direct other simp del: map_map)
qed

theorem started_put_sends_witness:
  "pub_objs (host_init\<lparr>pub_objs := [0 \<mapsto> started_pub],
                       publish_to_scheduler := [''T'' \<mapsto> True]\<rparr>) 0 = Some started_pub
   \<and> pub_started started_pub \<and> distinct (map fst (pub_subscribers started_pub))
   \<and> sent (Pub__put 0 5 (host_init\<lparr>pub_objs := [0 \<mapsto> started_pub],
                                    publish_to_scheduler := [''T'' \<mapsto> True]\<rparr>))
     = [Send_to_worker ''tcp://b'' (Pubsub_msg ''T'' (To_serialize 5)),
        Send_to_worker ''tcp://c'' (Pubsub_msg ''T'' (To_serialize 5)),
        Batched_stream_send (Pubsub_msg ''T'' (To_serialize 5))]
   \<and> sent (Pub__put 0 5 (host_init\<lparr>pub_objs := [0 \<mapsto> client_pub]\<rparr>))
     = [Scheduler_comm_send (Pubsub_msg ''T'' (To_serialize 5))]"
proof -
  let ?h = "host_init\<lparr>pub_objs := [0 \<mapsto> started_pub],
                      publish_to_scheduler := [''T'' \<mapsto> True]\<rparr> :: nat host"
  have a: "pub_objs ?h 0 = Some started_pub" and b: "pub_started started_pub"
    and c: "distinct (map fst (pub_subscribers started_pub))"
    by (simp_all add: started_pub_def host_init_def)
  show ?thesis
    using a b c started_put_sends [OF a b c, of 5]
    by (simp add: started_pub_def client_pub_def host_init_def Pub__put_def Let_def getitem_def inserted_def)
qed

subsection \<open>A \<open>Pub\<close> without a worker\<close>

lemma host_inv_same:
  assumes "host_inv h" and "referenced h' \<subseteq> referenced h" and "kind h' = kind h"
    and "client_subscribers_of h' = client_subscribers_of h"
  shows "host_inv h'"
  using assms unfolding host_inv_def by (auto simp: subset_iff)

lemma host_inv_init: "host_inv host_init"
  by (simp add: host_inv_def referenced_def kind_def host_init_def getitem_def)

lemma host_inv_put: "host_inv h \<Longrightarrow> host_inv (Pub_put p msg h)"
  by (erule host_inv_same)
     (auto simp: Pub_put_def referenced_def kind_def client_subscribers_of_def)

lemma host_inv_Pub_init:
  assumes "host_inv h" and "pub_objs h p = None" and "Pub_init p name worker client h = Inr h'"
  shows "host_inv h'"
proof -
  have fresh: "p \<notin> referenced h"
    using assms(1,2) unfolding host_inv_def kind_def by force
  have some: "client \<noteq> None \<or> worker \<noteq> None"
    using assms(3) by (auto simp: Pub_init_def split: if_splits)
  show ?thesis
  proof (cases worker)
    case None
    then have h': "h' = h\<lparr>pub_objs := (pub_objs h)
                       (p \<mapsto> \<lparr>pub_name = name, pub_worker = None, pub_client = client,
                              pub_subscribers = [], pub_started = False, pub_buffer = []\<rparr>),
                    loop := loop h @ [Start p]\<rparr>"
      using assms(3) some by (auto simp: Pub_init_def Let_def)
    have r: "referenced h' = referenced h"
      by (auto simp: h' referenced_def)
    show ?thesis
      using assms(1) fresh some None unfolding host_inv_def r
      by (auto simp: h' kind_def client_subscribers_of_def)
  next
    case (Some w)
    then have h': "h' = h\<lparr>pub_objs := (pub_objs h)
                       (p \<mapsto> \<lparr>pub_name = name, pub_worker = Some w, pub_client = client,
                              pub_subscribers = [], pub_started = False, pub_buffer = []\<rparr>),
                    ext_publishers := touch_objects (ext_publishers h) name,
                    loop := loop h @ [Start p, Publishers_add name p]\<rparr>"
      using assms(3) by (auto simp: Pub_init_def Let_def)
    have r: "referenced h' = insert p (referenced h)"
      by (auto simp: h' referenced_def)
    show ?thesis
      using assms(1) fresh unfolding host_inv_def r
      by (auto simp: h' kind_def client_subscribers_of_def)
  qed
qed


lemma kind_cong: "pub_objs h' = pub_objs h \<Longrightarrow> kind h' = kind h"
  by (simp add: kind_def fun_eq_iff)

lemma cso_cong: "pub_objs h' = pub_objs h \<Longrightarrow> client_subscribers_of h' = client_subscribers_of h"
  by (simp add: client_subscribers_of_def fun_eq_iff)

lemma referenced_cong:
  "awaiting h' = awaiting h \<Longrightarrow> objects (ext_publishers h') = objects (ext_publishers h)
   \<Longrightarrow> loop h' = loop h \<Longrightarrow> referenced h' = referenced h"
  by (simp add: referenced_def)

lemma host_inv_cong:
  assumes "host_inv h" and "pub_objs h' = pub_objs h" and "awaiting h' = awaiting h"
    and "objects (ext_publishers h') = objects (ext_publishers h)" and "loop h' = loop h"
  shows "host_inv h'"
  using assms(1)
proof (rule host_inv_same)
  show "referenced h' \<subseteq> referenced h"
    using referenced_cong [OF assms(3,4,5)] by simp
  show "kind h' = kind h"
    using assms(2) by (rule kind_cong)
  show "client_subscribers_of h' = client_subscribers_of h"
    using assms(2) by (rule cso_cong)
qed

lemma host_inv_upd:
  assumes "host_inv h" and "pub_objs h p = Some pub" and "pub_worker pub = Some w"
    and "pub_worker pub' = Some w" and "pub_client pub' = pub_client pub"
    and "pub_objs h' = (pub_objs h)(p \<mapsto> pub')" and "awaiting h' = awaiting h"
    and "objects (ext_publishers h') = objects (ext_publishers h)" and "loop h' = loop h"
  shows "host_inv h'"
  using assms(1)
proof (rule host_inv_same)
  show "referenced h' \<subseteq> referenced h"
    using referenced_cong [OF assms(7,8,9)] by simp
  show "kind h' = kind h"
    using assms(2,3,4,5,6) by (simp add: kind_def fun_eq_iff)
  show "client_subscribers_of h' = client_subscribers_of h"
    using assms(2,3,4,6) by (simp add: client_subscribers_of_def fun_eq_iff)
qed

lemma referenced_on_worker:
  "host_inv h \<Longrightarrow> p \<in> referenced h \<Longrightarrow> \<exists>pub w. pub_objs h p = Some pub \<and> pub_worker pub = Some w"
  unfolding host_inv_def kind_def by fastforce

lemma set_subscriber_referenced [simp]: "referenced (set_subscriber a i p h) = referenced h"
  by (simp add: referenced_def set_subscriber_def split: option.splits)

lemma host_inv_set_subscriber:
  assumes "host_inv h" and "p \<in> referenced h"
  shows "host_inv (set_subscriber a i p h)"
proof -
  from referenced_on_worker [OF assms]
  obtain pub w where pub: "pub_objs h p = Some pub" "pub_worker pub = Some w"
    by blast
  let ?pub = "pub\<lparr>pub_subscribers := AList.update a i (pub_subscribers pub)\<rparr>"
  have h': "set_subscriber a i p h = h\<lparr>pub_objs := (pub_objs h)(p \<mapsto> ?pub)\<rparr>"
    using pub by (simp add: set_subscriber_def)
  show ?thesis
    unfolding h' using assms(1) pub by (rule host_inv_upd) (simp_all add: pub)
qed

lemma host_inv_fold_set_subscriber:
  "host_inv h \<Longrightarrow> set ps \<subseteq> referenced h \<Longrightarrow> host_inv (fold (set_subscriber a i) ps h)"
  by (induction ps arbitrary: h) (simp_all add: host_inv_set_subscriber)

lemma host_inv_touch:
  "host_inv h \<Longrightarrow> host_inv (h\<lparr>ext_publishers := touch_objects (ext_publishers h) name\<rparr>)"
  by (erule host_inv_cong) simp_all

lemma objects_referenced: "set (objects (ext_publishers h) name) \<subseteq> referenced h"
  by (auto simp: referenced_def)

lemma host_inv_worker_add_subscriber:
  assumes "host_inv h"
  shows "host_inv (worker_add_subscriber name a i h)"
proof -
  let ?h = "h\<lparr>ext_publishers := touch_objects (ext_publishers h) name\<rparr>"
  have "host_inv (fold (set_subscriber a i) (objects (ext_publishers ?h) name) ?h)"
    using host_inv_touch [OF assms] objects_referenced by (rule host_inv_fold_set_subscriber)
  then show ?thesis
    by (simp add: worker_add_subscriber_def Let_def)
qed

lemma host_inv_del_subscriber:
  "host_inv h \<Longrightarrow> set ps \<subseteq> referenced h \<Longrightarrow> del_subscriber a ps h = Inr h' \<Longrightarrow> host_inv h'"
proof (induction ps arbitrary: h)
  case Nil
  then show ?case by simp
next
  case (Cons p ps)
  have "p \<in> referenced h"
    using Cons.prems(2) by simp
  from referenced_on_worker [OF Cons.prems(1) this]
  obtain pub w where pub: "pub_objs h p = Some pub" "pub_worker pub = Some w"
    by blast
  let ?pub = "pub\<lparr>pub_subscribers := AList.delete a (pub_subscribers pub)\<rparr>"
  let ?h = "h\<lparr>pub_objs := (pub_objs h)(p \<mapsto> ?pub)\<rparr>"
  have run: "del_subscriber a ps ?h = Inr h'"
    using Cons.prems(3) pub by (simp split: if_splits)
  have inv: "host_inv ?h"
    using Cons.prems(1) pub by (rule host_inv_upd) (simp_all add: pub)
  have "referenced ?h = referenced h"
    by (rule referenced_cong) simp_all
  then have "set ps \<subseteq> referenced ?h"
    using Cons.prems(2) by simp
  with inv show ?case
    using run by (rule Cons.IH)
qed

lemma host_inv_worker_remove_subscriber:
  assumes "host_inv h" and "worker_remove_subscriber name a h = Inr h'"
  shows "host_inv h'"
proof -
  let ?h = "h\<lparr>ext_publishers := touch_objects (ext_publishers h) name\<rparr>"
  have "del_subscriber a (objects (ext_publishers ?h) name) ?h = Inr h'"
    using assms(2) by (simp add: worker_remove_subscriber_def Let_def)
  with host_inv_touch [OF assms(1)] objects_referenced show ?thesis
    by (rule host_inv_del_subscriber)
qed

lemma host_inv_publish_scheduler: "host_inv h \<Longrightarrow> host_inv (publish_scheduler name b h)"
  by (erule host_inv_cong) (simp_all add: publish_scheduler_def)

lemma Sub__put_fields [simp]:
  "awaiting (Sub__put m i h) = awaiting h"
  "loop (Sub__put m i h) = loop h"
  "ext_publishers (Sub__put m i h) = ext_publishers h"
  "pub_objs (Sub__put m i h) = pub_objs h"
  "sent (Sub__put m i h) = sent h"
  "ext_subscribers (Sub__put m i h) = ext_subscribers h"
  by (simp_all add: Sub__put_def split: option.splits)

lemma fold_Sub__put_fields [simp]:
  "awaiting (fold (Sub__put m) js h) = awaiting h"
  "loop (fold (Sub__put m) js h) = loop h"
  "ext_publishers (fold (Sub__put m) js h) = ext_publishers h"
  "pub_objs (fold (Sub__put m) js h) = pub_objs h"
  "sent (fold (Sub__put m) js h) = sent h"
  "ext_subscribers (fold (Sub__put m) js h) = ext_subscribers h"
  by (induction js arbitrary: h) simp_all

lemma host_inv_worker_handle_message: "host_inv h \<Longrightarrow> host_inv (worker_handle_message name m h)"
  by (erule host_inv_cong) (simp_all add: worker_handle_message_def)

lemma host_inv_client_handle_message: "host_inv h \<Longrightarrow> host_inv (client_handle_message name m h)"
  by (erule host_inv_cong) (simp_all add: client_handle_message_def Let_def)



lemma referenced_iff:
  "p \<in> referenced h \<longleftrightarrow>
     p \<in> awaiting h \<or> (\<exists>n. p \<in> set (objects (ext_publishers h) n))
     \<or> (\<exists>n. Publishers_add n p \<in> set (loop h))
     \<or> (\<exists>r. Start_resume p r \<in> set (loop h))"
  by (simp add: referenced_def)

lemma host_inv_refD:
  "host_inv h \<Longrightarrow> p \<in> referenced h \<Longrightarrow> \<exists>w c. kind h p = Some (Some w, c)"
  unfolding host_inv_def by blast

lemma host_inv_clientD:
  "host_inv h \<Longrightarrow> kind h p = Some (None, c) \<Longrightarrow> c \<noteq> None \<and> client_subscribers_of h p = Some []"
  unfolding host_inv_def by blast

lemma host_invI:
  assumes "\<And>p. p \<in> referenced h \<Longrightarrow> \<exists>w c. kind h p = Some (Some w, c)"
    and "\<And>p c. kind h p = Some (None, c) \<Longrightarrow> c \<noteq> None \<and> client_subscribers_of h p = Some []"
  shows "host_inv h"
  unfolding host_inv_def using assms by blast

lemma host_inv_upd_worker:
  assumes "host_inv h" and "pub_objs h p = Some pub" and "pub_worker pub = Some w"
    and "pub_worker pub' = Some w" and "pub_client pub' = pub_client pub"
    and "pub_objs h' = (pub_objs h)(p \<mapsto> pub')" and "referenced h' \<subseteq> referenced h"
  shows "host_inv h'"
  using assms(1,7)
proof (rule host_inv_same)
  show "kind h' = kind h"
    using assms(2,3,4,5,6) by (simp add: kind_def fun_eq_iff)
  show "client_subscribers_of h' = client_subscribers_of h"
    using assms(2,3,4,6) by (simp add: client_subscribers_of_def fun_eq_iff)
qed

lemma host_inv_upd_same_subscribers:
  assumes "host_inv h" and "pub_objs h p = Some pub"
    and "pub_worker pub' = pub_worker pub" and "pub_client pub' = pub_client pub"
    and "pub_subscribers pub' = pub_subscribers pub"
    and "pub_objs h' = (pub_objs h)(p \<mapsto> pub')" and "referenced h' \<subseteq> referenced h"
  shows "host_inv h'"
  using assms(1,7)
proof (rule host_inv_same)
  show "kind h' = kind h"
    using assms(2,3,4,6) by (simp add: kind_def fun_eq_iff)
  show "client_subscribers_of h' = client_subscribers_of h"
    using assms(2,3,5,6) by (simp add: client_subscribers_of_def fun_eq_iff)
qed

lemma host_inv_less:
  assumes "host_inv h" and "pub_objs h' = pub_objs h" and "referenced h' \<subseteq> referenced h"
  shows "host_inv h'"
  using assms(1,3)
proof (rule host_inv_same)
  show "kind h' = kind h"
    using assms(2) by (rule kind_cong)
  show "client_subscribers_of h' = client_subscribers_of h"
    using assms(2) by (rule cso_cong)
qed

lemma host_inv_await:
  assumes "host_inv h" and "pub_objs h p = Some pub" and "pub_worker pub = Some w"
    and "pub_objs h' = pub_objs h" and "referenced h' \<subseteq> insert p (referenced h)"
  shows "host_inv h'"
proof (rule host_invI)
  have k: "kind h' = kind h"
    using assms(4) by (rule kind_cong)
  have c: "client_subscribers_of h' = client_subscribers_of h"
    using assms(4) by (rule cso_cong)
  have kp: "kind h p = Some (Some w, pub_client pub)"
    using assms(2,3) by (simp add: kind_def)
  show "\<exists>w c. kind h' q = Some (Some w, c)" if "q \<in> referenced h'" for q
  proof (cases "q = p")
    case True
    then show ?thesis
      using kp k by simp
  next
    case False
    then have "q \<in> referenced h"
      using that assms(5) by blast
    with assms(1) show ?thesis
      unfolding k by (rule host_inv_refD)
  qed
  show "c' \<noteq> None \<and> client_subscribers_of h' q = Some []" if "kind h' q = Some (None, c')" for q c'
    using assms(1) that unfolding k c by (rule host_inv_clientD)
qed

lemma referenced_loop_tl:
  assumes "loop h = cb # rest"
  shows "referenced (h\<lparr>loop := rest\<rparr>) \<subseteq> referenced h"
proof
  fix q
  assume "q \<in> referenced (h\<lparr>loop := rest\<rparr>)"
  then have "q \<in> awaiting h \<or> (\<exists>n. q \<in> set (objects (ext_publishers h) n))
     \<or> (\<exists>n. Publishers_add n q \<in> set rest) \<or> (\<exists>r. Start_resume q r \<in> set rest)"
    by (simp add: referenced_iff)
  moreover have "Publishers_add n q \<in> set (loop h)" if "Publishers_add n q \<in> set rest" for n
    using that assms by simp
  moreover have "Start_resume q r \<in> set (loop h)" if "Start_resume q r \<in> set rest" for r
    using that assms by simp
  ultimately show "q \<in> referenced h"
    unfolding referenced_iff by blast
qed

lemma host_inv_Pub_start_finish:
  assumes "host_inv h"
  shows "host_inv (Pub_start_finish p h)"
proof (cases "pub_objs h p")
  case None
  then show ?thesis
    using assms by (simp add: Pub_start_finish_def)
next
  case (Some pub)
  let ?pub = "pub\<lparr>pub_started := True, pub_buffer := []\<rparr>"
  let ?h = "h\<lparr>pub_objs := (pub_objs h)(p \<mapsto> ?pub), loop := loop h @ map (Put p) (pub_buffer pub)\<rparr>"
  have h': "Pub_start_finish p h = ?h"
    using Some by (simp add: Pub_start_finish_def Let_def fold_Pub_put)
  have "referenced ?h \<subseteq> referenced h"
    by (auto simp: referenced_def)
  then show ?thesis
    unfolding h' by (rule host_inv_upd_same_subscribers [OF assms Some, rotated 4]) simp_all
qed

lemma host_inv_Pub_start:
  assumes "host_inv h"
  shows "host_inv (Pub_start p h)"
proof (cases "pub_objs h p")
  case None
  then show ?thesis
    using assms by (simp add: Pub_start_def)
next
  case (Some pub)
  show ?thesis
  proof (cases "pub_worker pub")
    case None
    then show ?thesis
      using Some assms by (simp add: Pub_start_def host_inv_Pub_start_finish)
  next
    case w: (Some w)
    let ?h = "h\<lparr>sent := sent h @ [Call_pubsub_add_publisher (pub_name pub) w],
                 awaiting := insert p (awaiting h)\<rparr>"
    have h': "Pub_start p h = ?h"
      using Some w by (simp add: Pub_start_def)
    have "referenced ?h \<subseteq> insert p (referenced h)"
      by (auto simp: referenced_def)
    then show ?thesis
      unfolding h' by (rule host_inv_await [OF assms Some w, rotated]) simp
  qed
qed

lemma host_inv_Pub__put:
  assumes "host_inv h"
  shows "host_inv (Pub__put p msg h)"
proof (cases "pub_objs h p")
  case None
  then show ?thesis
    using assms by (simp add: Pub__put_def)
next
  case (Some pub)
  show ?thesis
  proof (cases "pub_started pub")
    case False
    let ?pub = "pub\<lparr>pub_buffer := pub_buffer pub @ [msg]\<rparr>"
    let ?h = "h\<lparr>pub_objs := (pub_objs h)(p \<mapsto> ?pub)\<rparr>"
    have h': "Pub__put p msg h = ?h"
      using Some False by (simp add: Pub__put_def)
    have "referenced ?h \<subseteq> referenced h"
      by (auto simp: referenced_def)
    then show ?thesis
      unfolding h' by (rule host_inv_upd_same_subscribers [OF assms Some, rotated 4]) simp_all
  next
    case True
    have "pub_objs (Pub__put p msg h) = pub_objs h"
      "awaiting (Pub__put p msg h) = awaiting h"
      "objects (ext_publishers (Pub__put p msg h)) = objects (ext_publishers h)"
      "loop (Pub__put p msg h) = loop h"
      using Some True by (simp_all add: Pub__put_def Let_def split: option.splits)
    with assms show ?thesis
      by (rule host_inv_cong)
  qed
qed

lemma host_inv_Pub_start_resume:
  assumes "host_inv h" and "pub_objs h p = Some pub" and "pub_worker pub = Some w"
  shows "host_inv (Pub_start_resume p result h)"
proof -
  let ?pub = "pub\<lparr>pub_subscribers := dict_update (result_subscribers result) (pub_subscribers pub)\<rparr>"
  let ?h = "h\<lparr>pub_objs := (pub_objs h)(p \<mapsto> ?pub),
               publish_to_scheduler := (publish_to_scheduler h)
                 (pub_name pub \<mapsto> result_publish_scheduler result)\<rparr>"
  have h': "Pub_start_resume p result h = Pub_start_finish p ?h"
    using assms(2) by (simp add: Pub_start_resume_def)
  have "referenced ?h \<subseteq> referenced h"
    by (auto simp: referenced_def)
  then have "host_inv ?h"
    by (rule host_inv_upd_worker [OF assms(1,2,3), rotated 3]) (simp_all add: assms(3))
  then show ?thesis
    unfolding h' by (rule host_inv_Pub_start_finish)
qed

lemma host_inv_run_callback:
  assumes "host_inv h" and "loop h = cb # rest"
  shows "host_inv (run_callback cb (h\<lparr>loop := rest\<rparr>))"
proof -
  let ?h = "h\<lparr>loop := rest\<rparr>"
  have inv: "host_inv ?h"
    by (rule host_inv_less [OF assms(1) _ referenced_loop_tl [OF assms(2)]]) simp
  show ?thesis
  proof (cases cb)
    case (Start p)
    have "referenced (?h\<lparr>loop := rest @ [Start_body p]\<rparr>) \<subseteq> referenced ?h"
      by (auto simp: referenced_def)
    then have "host_inv (?h\<lparr>loop := rest @ [Start_body p]\<rparr>)"
      by (rule host_inv_less [OF inv, rotated]) simp
    then show ?thesis
      using Start by simp
  next
    case (Start_body p)
    then show ?thesis
      using inv by (simp add: host_inv_Pub_start)
  next
    case (Start_resume p result)
    have "p \<in> referenced h"
      using assms(2) Start_resume by (auto simp: referenced_def)
    from referenced_on_worker [OF assms(1) this]
    obtain pub w where pub: "pub_objs h p = Some pub" "pub_worker pub = Some w"
      by blast
    have "pub_objs ?h p = Some pub"
      using pub(1) by simp
    from host_inv_Pub_start_resume [OF inv this pub(2)]
    show ?thesis
      using Start_resume by simp
  next
    case (Put p msg)
    then show ?thesis
      using inv by (simp add: host_inv_Pub__put)
  next
    case (Publishers_add name p)
    let ?h' = "?h\<lparr>ext_publishers := (ext_publishers ?h)
                  (name \<mapsto> weak_add p (objects (ext_publishers ?h) name))\<rparr>"
    have "p \<in> referenced h"
      using assms(2) Publishers_add by (auto simp: referenced_def)
    have "q \<in> referenced h" if "q \<in> referenced ?h'" for q
    proof -
      from that consider (a) "q \<in> awaiting h"
        | (b) n where "q \<in> set (objects (ext_publishers ?h') n)"
        | (c) n where "Publishers_add n q \<in> set rest"
        | (d) r where "Start_resume q r \<in> set rest"
        unfolding referenced_def by auto
      then show ?thesis
      proof cases
        case a
        then show ?thesis by (simp add: referenced_def)
      next
        case b
        then have "q = p \<or> q \<in> set (objects (ext_publishers h) n)"
          by (simp add: weak_add_def split: if_splits)
        then show ?thesis
          using \<open>p \<in> referenced h\<close> objects_referenced [of h n] by blast
      next
        case c
        then have "Publishers_add n q \<in> set (loop h)"
          using assms(2) by simp
        then show ?thesis
          unfolding referenced_def by blast
      next
        case d
        then have "Start_resume q r \<in> set (loop h)"
          using assms(2) by simp
        then show ?thesis
          unfolding referenced_def by blast
      qed
    qed
    then have "referenced ?h' \<subseteq> referenced h"
      by blast
    then have "referenced ?h' \<subseteq> referenced h" .
    then have "host_inv ?h'"
      by (rule host_inv_less [OF assms(1), rotated]) simp
    then show ?thesis
      using Publishers_add by simp
  qed
qed

lemma host_inv_loop_step:
  assumes "host_inv h"
  shows "host_inv (loop_step h)"
proof (cases "loop h")
  case Nil
  then show ?thesis
    using assms by (simp add: loop_step_def)
next
  case (Cons cb rest)
  then have "loop_step h = run_callback cb (h\<lparr>loop := rest\<rparr>)"
    by (simp add: loop_step_def)
  then show ?thesis
    using host_inv_run_callback [OF assms Cons] by simp
qed

lemma host_inv_Pub_start_return:
  assumes "host_inv h" and "p \<in> awaiting h"
  shows "host_inv (Pub_start_return p result h)"
proof -
  have "referenced (Pub_start_return p result h) \<subseteq> referenced h"
    using assms(2) by (auto simp: referenced_def Pub_start_return_def)
  then show ?thesis
    by (rule host_inv_less [OF assms(1), rotated]) (simp add: Pub_start_return_def)
qed

lemma reachable_host_inv: "reachable h \<Longrightarrow> host_inv h"
proof (induction rule: reachable.induct)
  case reach_init
  show ?case by (rule host_inv_init)
next
  case (reach_Pub h p name worker client h')
  then show ?case by (auto intro: host_inv_Pub_init)
next
  case (reach_put h p msg)
  then show ?case by (simp add: host_inv_put)
next
  case (reach_loop h)
  then show ?case by (simp add: host_inv_loop_step)
next
  case (reach_return h p result)
  then show ?case by (simp add: host_inv_Pub_start_return)
next
  case (reach_add_subscriber h name address info)
  then show ?case by (simp add: host_inv_worker_add_subscriber)
next
  case (reach_remove_subscriber h name address h')
  then show ?case by (auto intro: host_inv_worker_remove_subscriber)
next
  case (reach_publish_scheduler h name publish)
  then show ?case by (simp add: host_inv_publish_scheduler)
next
  case (reach_worker_message h name msg)
  then show ?case by (simp add: host_inv_worker_handle_message)
next
  case (reach_client_message h name msg)
  then show ?case by (simp add: host_inv_client_handle_message)
qed


lemma reachable_client_host: "reachable client_host"
proof -
  let ?new = "\<lparr>pub_name = ''T'', pub_worker = None, pub_client = Some ''c1'',
           pub_subscribers = [], pub_started = False, pub_buffer = ([] :: nat list)\<rparr>"
  let ?h = "host_init\<lparr>pub_objs := [0 \<mapsto> ?new], loop := [Start 0]\<rparr> :: nat host"
  have init: "Pub_init 0 ''T'' None (Some ''c1'') (host_init :: nat host) = Inr ?h"
    by (simp add: Pub_init_def host_init_def Let_def)
  have fresh: "pub_objs (host_init :: nat host) 0 = None"
    by (simp add: host_init_def)
  have "reachable ?h"
    by (rule reach_Pub [OF reach_init fresh init])
  then have "reachable (loop_step ?h)"
    by (rule reach_loop)
  then have "reachable (loop_step (loop_step ?h))"
    by (rule reach_loop)
  moreover have "loop_step (loop_step ?h) = client_host"
    by (simp add: loop_step_def Pub_start_def Pub_start_finish_def host_init_def client_host_def
        client_pub_def Let_def)
  ultimately show ?thesis
    by simp
qed

text \<open>
  C10. In every state that a process can reach, a \<open>Pub\<close> without a worker has no
  subscribers. Its \<open>_start\<close> sends nothing, suspends nothing and sets \<open>started\<close>; its
  \<open>_put\<close> leaves the subscribers empty and sends the event once, on the client's stream
  to the scheduler, when the \<open>Pub\<close> has started, and nothing otherwise.
\<close>

theorem client_pub_has_no_subscribers:
  fixes h :: "'m host"
  assumes "reachable h" and "pub_objs h p = Some pub" and "pub_worker pub = None"
  shows "pub_subscribers pub = []
       \<and> sent (Pub_start p h) = sent h
       \<and> awaiting (Pub_start p h) = awaiting h
       \<and> pub_objs (Pub_start p h) p = Some (pub\<lparr>pub_started := True, pub_buffer := []\<rparr>)
       \<and> (\<forall>msg. sent (Pub__put p msg h) =
              sent h @ (if pub_started pub
                        then [Scheduler_comm_send (Pubsub_msg (pub_name pub) (To_serialize msg))]
                        else []))
       \<and> (\<forall>msg. map_option pub_subscribers (pub_objs (Pub__put p msg h) p) = Some [])"
proof -
  have inv: "host_inv h"
    using assms(1) by (rule reachable_host_inv)
  have "kind h p = Some (None, pub_client pub)"
    using assms(2,3) by (simp add: kind_def)
  from host_inv_clientD [OF inv this]
  have client: "pub_client pub \<noteq> None" and "client_subscribers_of h p = Some []"
    by simp_all
  then have none: "pub_subscribers pub = []"
    using assms(2,3) by (simp add: client_subscribers_of_def)
  obtain c where c: "pub_client pub = Some c"
    using client by blast
  have start: "Pub_start p h =
      h\<lparr>pub_objs := (pub_objs h)(p \<mapsto> pub\<lparr>pub_started := True, pub_buffer := []\<rparr>),
        loop := loop h @ map (Put p) (pub_buffer pub)\<rparr>"
    using assms(2,3) by (simp add: Pub_start_def Pub_start_finish_def Let_def fold_Pub_put)
  have put: "sent (Pub__put p msg h) =
              sent h @ (if pub_started pub
                        then [Scheduler_comm_send (Pubsub_msg (pub_name pub) (To_serialize msg))]
                        else [])"
    "map_option pub_subscribers (pub_objs (Pub__put p msg h) p) = Some []" for msg
    using assms(2,3) c none by (simp_all add: Pub__put_def Let_def)
  show ?thesis
    using none put by (simp add: start)
qed

theorem client_pub_has_no_subscribers_witness:
  "reachable client_host \<and> pub_objs client_host 0 = Some client_pub
   \<and> pub_worker client_pub = None \<and> pub_subscribers client_pub = []
   \<and> sent (Pub__put 0 5 client_host) = [Scheduler_comm_send (Pubsub_msg ''T'' (To_serialize 5))]"
proof -
  have a: "pub_objs client_host 0 = Some client_pub" and b: "pub_worker client_pub = None"
    by (simp_all add: client_host_def client_pub_def host_init_def)
  show ?thesis
    using reachable_client_host a b
      client_pub_has_no_subscribers [OF reachable_client_host a b]
    by (simp add: client_host_def client_pub_def host_init_def)
qed

section \<open>Properties of \<open>Sub\<close>\<close>

lemma Sub__get_no_timeout: "Sub__get start None rounds buffer \<noteq> Raised TimeoutError"
proof (induction rounds arbitrary: buffer)
  case Nil
  then show ?case by (cases buffer) simp_all
next
  case (Cons r rounds)
  then show ?case
    by (cases buffer; cases r) (auto split: option.splits)
qed

lemma Sub__get_deadline:
  assumes "\<And>now d b. (now, Some (d, b)) \<in> set rounds \<Longrightarrow> b = []"
    and "\<And>now notify. (now, notify) \<in> set rounds \<Longrightarrow> t - (now - start) \<noteq> 0"
    and "t - (now - start) < 0"
  shows "Sub__get start (Some t) (rounds @ [(now, notify)]) [] = Raised TimeoutError"
  using assms(1,2)
proof (induction rounds)
  case Nil
  show ?case
    using assms(3) by simp
next
  case (Cons r rounds)
  obtain now' notify' where r: "r = (now', notify')"
    by (cases r)
  have IH: "Sub__get start (Some t) (rounds @ [(now, notify)]) [] = Raised TimeoutError"
  proof (rule Cons.IH)
    fix now'' d b
    assume "(now'', Some (d, b)) \<in> set rounds"
    then have "(now'', Some (d, b)) \<in> set (r # rounds)"
      by simp
    then show "b = []"
      by (rule Cons.prems(1))
  next
    fix now'' notify''
    assume "(now'', notify'') \<in> set rounds"
    then have "(now'', notify'') \<in> set (r # rounds)"
      by simp
    then show "t - (now'' - start) \<noteq> 0"
      by (rule Cons.prems(2))
  qed
  have nz: "t - (now' - start) \<noteq> 0"
    using Cons.prems(2) [of now' notify'] by (simp add: r)
  show ?case
  proof (cases notify')
    case None
    then show ?thesis
      using nz by (simp add: r Let_def)
  next
    case (Some db)
    obtain d b where db: "db = (d, b)"
      by (cases db)
    have "b = []"
      using Cons.prems(1) [of now' d b] by (simp add: r Some db)
    then show ?thesis
      using nz by (simp add: r Some db Let_def IH)
  qed
qed

lemma Sub__get_boundary:
  "Sub__get start (Some t) ((start + t, notify) # rounds) [] = Raised RuntimeError"
  by simp

lemma Sub_get_head:
  "sub_buffer sub = x # xs \<Longrightarrow> Sub_get sub on_loop_thread timeout start rounds = Returned x xs"
  by (simp add: Sub_get_def split: option.splits)

text \<open>
  C9. The timeout is lost on the loop thread of a worker. With an empty buffer that is
  never notified, a timeout of 50 ms and a clock that reads 1 s after the start, \<open>get\<close>
  on the loop thread of the worker is left waiting, while \<open>get\<close> from another thread and
  \<open>get\<close> on a client raise \<open>TimeoutError\<close>; on the loop thread of the worker no timeout,
  clock or sequence of notifications makes it raise \<open>TimeoutError\<close>.
\<close>

theorem get_on_loop_thread_drops_timeout:
  "Sub_get worker_sub True (Some (1 / 20)) 0 [(1, None)] = Waiting
   \<and> Sub_get worker_sub False (Some (1 / 20)) 0 [(1, None)] = Raised TimeoutError
   \<and> Sub_get client_sub True (Some (1 / 20)) 0 [(1, None)] = Raised TimeoutError
   \<and> (\<forall>timeout start rounds.
         Sub_get worker_sub True timeout start rounds \<noteq> Raised TimeoutError)"
  by (simp add: Sub_get_def worker_sub_def client_sub_def Sub__get_no_timeout)

end
